theory Spec2Isabelle
  imports Main "HOL-Library.Word"
begin

section \<open>Python primitives used by strip.py\<close>

text \<open>
  File contents are Python \<^verbatim>\<open>bytes\<close>: lists of 8-bit words.  Text (\<^verbatim>\<open>str\<close>) is a
  list of 8-bit characters; lengths and lower-casing are those of ASCII text.
\<close>

type_synonym byte = "8 word"
type_synonym bytes = "byte list"

abbreviation LF :: byte where "LF \<equiv> 0x0A"
abbreviation CR :: byte where "CR \<equiv> 0x0D"

text \<open>\<^verbatim>\<open>s.endswith(suf)\<close> and \<^verbatim>\<open>s.startswith(p)\<close>.\<close>

definition endswith :: "'a list \<Rightarrow> 'a list \<Rightarrow> bool" where
  "endswith s suf \<longleftrightarrow> length suf \<le> length s \<and> drop (length s - length suf) s = suf"

definition startswith :: "'a list \<Rightarrow> 'a list \<Rightarrow> bool" where
  "startswith s p \<longleftrightarrow> take (length p) s = p"

text \<open>The slices \<^verbatim>\<open>s[-1:]\<close> and \<^verbatim>\<open>s[:-n]\<close> (for \<open>n > 0\<close>); neither raises on a short
  sequence.\<close>

definition last_slice :: "'a list \<Rightarrow> 'a list" where
  "last_slice s = drop (length s - 1) s"

definition drop_tail :: "nat \<Rightarrow> 'a list \<Rightarrow> 'a list" where
  "drop_tail n s = take (length s - n) s"

text \<open>\<^verbatim>\<open>pattern in s\<close> on strings: the substring test.\<close>

fun py_in :: "'a list \<Rightarrow> 'a list \<Rightarrow> bool" where
  "py_in pat [] = (pat = [])"
| "py_in pat (c # cs) = (startswith (c # cs) pat \<or> py_in pat cs)"

text \<open>\<^verbatim>\<open>s.split(sep)\<close> for a one-character separator, and \<^verbatim>\<open>sep.join(xs)\<close>.\<close>

fun py_split :: "char \<Rightarrow> string \<Rightarrow> string list" where
  "py_split sep [] = [[]]"
| "py_split sep (c # cs) =
     (if c = sep then [] # py_split sep cs
      else (case py_split sep cs of
              [] \<Rightarrow> [[c]]
            | w # ws \<Rightarrow> (c # w) # ws))"

fun py_join :: "string \<Rightarrow> string list \<Rightarrow> string" where
  "py_join sep [] = []"
| "py_join sep [x] = x"
| "py_join sep (x # y # ys) = x @ sep @ py_join sep (y # ys)"

text \<open>\<^verbatim>\<open>s.rfind(c)\<close>: the highest index of \<open>c\<close>, or \<open>-1\<close>.\<close>

definition rfind :: "'a \<Rightarrow> 'a list \<Rightarrow> int" where
  "rfind c s =
     (if c \<in> set s then int (length s) - 1 - int (length (takeWhile (\<lambda>x. x \<noteq> c) (rev s)))
      else - 1)"

text \<open>\<^verbatim>\<open>s.lower()\<close> on ASCII letters; every other character is left as it is.\<close>

definition char_lower :: "char \<Rightarrow> char" where
  "char_lower c =
     (case map_of (zip ''ABCDEFGHIJKLMNOPQRSTUVWXYZ'' ''abcdefghijklmnopqrstuvwxyz'') c of
        None \<Rightarrow> c
      | Some l \<Rightarrow> l)"

definition str_lower :: "string \<Rightarrow> string" where
  "str_lower s = map char_lower s"

text \<open>The decimal text of an integer, as an f-string prints it.\<close>

fun str_nat :: "nat \<Rightarrow> string" where
  "str_nat n =
     (if n < 10 then [''0123456789'' ! n]
      else str_nat (n div 10) @ [''0123456789'' ! (n mod 10)])"

declare str_nat.simps [simp del]

definition str_int :: "int \<Rightarrow> string" where
  "str_int i = (if i < 0 then CHR ''-'' # str_nat (nat (- i)) else str_nat (nat i))"


section \<open>The POSIX fragment of os.path and pathlib that strip.py uses\<close>

text \<open>\<^verbatim>\<open>os.path.join(a, b)\<close> for two arguments.\<close>

definition os_path_join :: "string \<Rightarrow> string \<Rightarrow> string" where
  "os_path_join a b =
     (if startswith b ''/'' then b
      else if a = [] \<or> endswith a ''/'' then a @ b
      else a @ ''/'' @ b)"

text \<open>
  A pure POSIX path is its root (\<open>''''\<close>, \<open>''/''\<close> or \<open>''//''\<close>) and the list of its
  remaining components.  Parsing drops empty components and \<open>''.''\<close> components; exactly
  two leading slashes are kept, three or more collapse to one.
\<close>

datatype pure_path = PurePath (path_root: string) (path_tail: "string list")

definition posix_root :: "string \<Rightarrow> string" where
  "posix_root s =
     (if startswith s ''/'' then
        (if startswith s ''//'' \<and> \<not> startswith s ''///'' then ''//'' else ''/'')
      else [])"

definition Path :: "string \<Rightarrow> pure_path" where
  "Path s = PurePath (posix_root s) (filter (\<lambda>x. x \<noteq> [] \<and> x \<noteq> ''.'') (py_split CHR ''/'' s))"

text \<open>\<^verbatim>\<open>str(p)\<close>: the path without components and without root prints as a dot.\<close>

definition path_str :: "pure_path \<Rightarrow> string" where
  "path_str p =
     (if path_root p = [] \<and> path_tail p = [] then ''.''
      else path_root p @ py_join ''/'' (path_tail p))"

text \<open>\<^verbatim>\<open>p / key\<close> for a string \<open>key\<close>: an absolute \<open>key\<close> replaces \<open>p\<close>.\<close>

definition path_div :: "pure_path \<Rightarrow> string \<Rightarrow> pure_path" where
  "path_div p key =
     (let q = Path key in
      if path_root q \<noteq> [] then q
      else PurePath (path_root p) (path_tail p @ path_tail q))"

text \<open>\<^verbatim>\<open>p.name\<close> and \<^verbatim>\<open>p.suffix\<close>: the suffix starts at the last dot of the name,
  unless that dot is the first or the last character of the name.\<close>

definition path_name :: "pure_path \<Rightarrow> string" where
  "path_name p = (if path_tail p = [] then [] else last (path_tail p))"

definition path_suffix :: "pure_path \<Rightarrow> string" where
  "path_suffix p =
     (let name = path_name p; i = rfind CHR ''.'' name in
      if 0 < i \<and> i < int (length name) - 1 then drop (nat i) name else [])"


section \<open>Trimmer: the loop of remove_trailing_newlines\<close>

text \<open>
  Lines 34 to 40 of strip.py.  The loop condition and the loop body are kept apart; a
  pass through the body in which none of the three tests succeeds leaves \<open>content\<close> as
  it is, as the \<^verbatim>\<open>if/elif/elif\<close> chain without \<^verbatim>\<open>else\<close> does.
\<close>

definition trim_guard :: "bytes \<Rightarrow> bool" where
  "trim_guard content \<longleftrightarrow>
     content \<noteq> [] \<and> (last_slice content = [LF] \<or> last_slice content = [CR])"

definition trim_body :: "bytes \<Rightarrow> bytes" where
  "trim_body content =
     (if endswith content [CR, LF] then drop_tail 2 content
      else if endswith content [LF] then drop_tail 1 content
      else if endswith content [CR] then drop_tail 1 content
      else content)"

partial_function (option) trim_loop :: "bytes \<Rightarrow> bytes option" where
  "trim_loop content =
     (if trim_guard content then trim_loop (trim_body content) else Some content)"

declare trim_loop.simps [code]

text \<open>Lines 31 to 42: the trimmed content and \<open>bytes_removed\<close>, a Python integer.\<close>

definition trim :: "bytes \<Rightarrow> (bytes \<times> int) option" where
  "trim content =
     (case trim_loop content of
        None \<Rightarrow> None
      | Some content' \<Rightarrow> Some (content', int (length content) - int (length content')))"

text \<open>Lines 140 to 146: the second copy of the loop, inside the dry-run branch of
  process_directory, on \<open>temp_content\<close>.\<close>

definition dry_guard :: "bytes \<Rightarrow> bool" where
  "dry_guard temp_content \<longleftrightarrow>
     temp_content \<noteq> [] \<and> (last_slice temp_content = [LF] \<or> last_slice temp_content = [CR])"

definition dry_body :: "bytes \<Rightarrow> bytes" where
  "dry_body temp_content =
     (if endswith temp_content [CR, LF] then drop_tail 2 temp_content
      else if endswith temp_content [LF] then drop_tail 1 temp_content
      else if endswith temp_content [CR] then drop_tail 1 temp_content
      else temp_content)"

partial_function (option) dry_loop :: "bytes \<Rightarrow> bytes option" where
  "dry_loop temp_content =
     (if dry_guard temp_content then dry_loop (dry_body temp_content) else Some temp_content)"

declare dry_loop.simps [code]

text \<open>Lines 137 to 148: \<open>bytes_would_remove\<close> for a content already read.\<close>

definition dry_bytes_would_remove :: "bytes \<Rightarrow> int option" where
  "dry_bytes_would_remove content =
     (case dry_loop content of
        None \<Rightarrow> None
      | Some temp_content \<Rightarrow> Some (int (length content) - int (length temp_content)))"


section \<open>Files and output streams\<close>

text \<open>
  The environment of the script.  \<open>contents\<close> is what \<^verbatim>\<open>open(p, 'rb').read()\<close> returns
  for the path text \<open>p\<close>; a path without contents cannot be opened for reading, and
  \<open>read_fault\<close> names the paths on which reading raises OSError, with the text of the
  exception.

  Writing is \<^verbatim>\<open>open(p, 'wb')\<close> followed by \<^verbatim>\<open>f.write(content)\<close> (lines 46 and 47), and it
  can raise at either step.  When the opening raises, the file is as it was.  Once the
  file is open it has been truncated, so when the writing raises, the file holds what had
  reached it: some first bytes of \<open>content\<close>, perhaps none.  Printing does not raise.
\<close>

datatype io_error = OSError string

datatype write_failure =
  OpenRaises string
| WriteRaises nat string

record filesystem =
  contents :: "string \<rightharpoonup> bytes"
  read_fault :: "string \<rightharpoonup> string"
  write_fault :: "string \<rightharpoonup> write_failure"

definition read_file :: "filesystem \<Rightarrow> string \<Rightarrow> io_error + bytes" where
  "read_file fsys p =
     (case read_fault fsys p of
        Some msg \<Rightarrow> Inl (OSError msg)
      | None \<Rightarrow>
          (case contents fsys p of
             None \<Rightarrow>
               Inl (OSError (''[Errno 2] No such file or directory: '' @ [CHR 0x27] @ p @ [CHR 0x27]))
           | Some c \<Rightarrow> Inr c))"

text \<open>The result of writing is the exception, if one was raised, and the files as the
  attempt leaves them.\<close>

definition write_file :: "filesystem \<Rightarrow> string \<Rightarrow> bytes \<Rightarrow> io_error option \<times> filesystem" where
  "write_file fsys p c =
     (case write_fault fsys p of
        None \<Rightarrow> (None, fsys\<lparr>contents := (contents fsys)(p \<mapsto> c)\<rparr>)
      | Some (OpenRaises msg) \<Rightarrow> (Some (OSError msg), fsys)
      | Some (WriteRaises n msg) \<Rightarrow>
          (Some (OSError msg), fsys\<lparr>contents := (contents fsys)(p \<mapsto> take n c)\<rparr>))"

text \<open>The two streams hold the texts of the \<^verbatim>\<open>print\<close> calls, oldest first.\<close>

record world =
  w_fs :: filesystem
  w_stdout :: "string list"
  w_stderr :: "string list"

definition print_out :: "string \<Rightarrow> world \<Rightarrow> world" where
  "print_out s w = w\<lparr>w_stdout := w_stdout w @ [s]\<rparr>"

definition print_err :: "string \<Rightarrow> world \<Rightarrow> world" where
  "print_err s w = w\<lparr>w_stderr := w_stderr w @ [s]\<rparr>"


section \<open>remove_trailing_newlines\<close>

text \<open>
  Lines 24 to 50, the body of the \<^verbatim>\<open>try\<close>, with the world as the body leaves it:
  \<open>Inl\<close> is a raised OSError, \<open>None\<close> a loop that does not return.
\<close>

definition remove_trailing_newlines_try ::
  "pure_path \<Rightarrow> world \<Rightarrow> ((io_error + (bool \<times> int)) \<times> world) option" where
  "remove_trailing_newlines_try file_path w =
     (case read_file (w_fs w) (path_str file_path) of
        Inl e \<Rightarrow> Some (Inl e, w)
      | Inr content \<Rightarrow>
          if content = [] then Some (Inr (False, 0), w)
          else
            (case trim content of
               None \<Rightarrow> None
             | Some (content', bytes_removed) \<Rightarrow>
                 if bytes_removed > 0 then
                   (case write_file (w_fs w) (path_str file_path) content' of
                      (Some e, fs') \<Rightarrow> Some (Inl e, w\<lparr>w_fs := fs'\<rparr>)
                    | (None, fs') \<Rightarrow> Some (Inr (True, bytes_removed), w\<lparr>w_fs := fs'\<rparr>))
                 else Some (Inr (False, 0), w)))"

text \<open>Lines 23 and 52 to 54: the handler of the \<^verbatim>\<open>try\<close>.\<close>

definition remove_trailing_newlines ::
  "pure_path \<Rightarrow> world \<Rightarrow> ((bool \<times> int) \<times> world) option" where
  "remove_trailing_newlines file_path w =
     (case remove_trailing_newlines_try file_path w of
        None \<Rightarrow> None
      | Some (Inl (OSError e), w') \<Rightarrow>
          Some ((False, 0),
                print_err (''Error processing '' @ path_str file_path @ '': '' @ e) w')
      | Some (Inr r, w') \<Rightarrow> Some (r, w'))"


section \<open>Filter: should_process_file\<close>

definition binary_extensions :: "string set" where
  "binary_extensions =
     {''.exe'', ''.dll'', ''.so'', ''.dylib'', ''.bin'', ''.obj'', ''.o'',
      ''.jpg'', ''.jpeg'', ''.png'', ''.gif'', ''.bmp'', ''.ico'', ''.svg'',
      ''.mp3'', ''.mp4'', ''.avi'', ''.mov'', ''.wav'', ''.flac'',
      ''.zip'', ''.tar'', ''.gz'', ''.rar'', ''.7z'',
      ''.pdf'', ''.doc'', ''.docx'', ''.xls'', ''.xlsx'', ''.ppt'', ''.pptx''}"

text \<open>Lines 76 to 78: the loop over the patterns; \<open>True\<close> when it returns early.\<close>

fun exclude_hit :: "string list \<Rightarrow> string \<Rightarrow> bool" where
  "exclude_hit [] file_str = False"
| "exclude_hit (pattern # rest) file_str =
     (if py_in pattern file_str then True else exclude_hit rest file_str)"

text \<open>\<open>extensions\<close> is a set or \<^verbatim>\<open>None\<close>, \<open>exclude_patterns\<close> a list or \<^verbatim>\<open>None\<close>;
  \<^verbatim>\<open>None\<close> and the empty collection are both false in a condition.\<close>

definition should_process_file ::
  "pure_path \<Rightarrow> string set option \<Rightarrow> string list option \<Rightarrow> bool" where
  "should_process_file file_path extensions exclude_patterns =
     (if (case extensions of
            None \<Rightarrow> False
          | Some exts \<Rightarrow> exts \<noteq> {} \<and> str_lower (path_suffix file_path) \<notin> exts)
      then False
      else if (case exclude_patterns of
                 None \<Rightarrow> False
               | Some pats \<Rightarrow> pats \<noteq> [] \<and> exclude_hit pats (path_str file_path))
      then False
      else if str_lower (path_suffix file_path) \<in> binary_extensions then False
      else True)"


section \<open>Walker: process_directory\<close>

text \<open>
  The directory structure found below the start directory, as \<^verbatim>\<open>os.walk\<close> lists it:
  each directory has its subdirectories, by name, and the names of its other entries.
  Symbolic links are not followed and listing errors are skipped by \<^verbatim>\<open>os.walk\<close>, so
  neither is part of the structure.
\<close>

datatype tree = Dir (subdirs: "(string \<times> tree) list") (nondirs: "string list")

text \<open>
  \<^verbatim>\<open>os.walk(top)\<close>, top-down: it yields \<open>(top, dirs, files)\<close> and then walks into the
  names that are in \<open>dirs\<close> once the consumer has resumed it.  The consumer's in-place
  change of \<open>dirs\<close> is the argument \<open>edit\<close>.
\<close>

function os_walk ::
  "(string list \<Rightarrow> string list) \<Rightarrow> string \<Rightarrow> tree \<Rightarrow> (string \<times> string list \<times> string list) list"
where
  "os_walk edit walk_top (Dir subs files) =
     (walk_top, map fst subs, files) #
     concat (map (\<lambda>dirname.
                    case map_of subs dirname of
                      None \<Rightarrow> []
                    | Some t \<Rightarrow> os_walk edit (os_path_join walk_top dirname) t)
                 (edit (map fst subs)))"
  by pat_completeness auto

termination os_walk
proof (relation "measure (\<lambda>(edit, walk_top, t). size t)", goal_cases)
  case 1
  show ?case by simp
next
  case (2 edit walk_top subs files dirname t)
  from 2(2) have "size t < Suc (size_list (size_prod (\<lambda>_. 0) size) subs)"
    by (induction subs) (auto split: if_splits)
  then show ?case by simp
qed

text \<open>Line 116: \<^verbatim>\<open>dirs[:] = [d for d in dirs if not d.startswith('.')]\<close>.\<close>

definition skip_hidden :: "string list \<Rightarrow> string list" where
  "skip_hidden dirs = [d \<leftarrow> dirs. \<not> startswith d ''.'']"

text \<open>The three counters of process_directory, and the world it acts on.\<close>

record loop_state =
  total_files :: int
  modified_files :: int
  total_bytes_removed :: int
  world :: world

text \<open>Lines 133 to 152, the body of the \<^verbatim>\<open>try\<close> of the dry-run branch.\<close>

definition dry_run_try :: "pure_path \<Rightarrow> loop_state \<Rightarrow> (io_error + loop_state) option" where
  "dry_run_try file_path st =
     (case read_file (w_fs (world st)) (path_str file_path) of
        Inl e \<Rightarrow> Some (Inl e)
      | Inr content \<Rightarrow>
          if content \<noteq> [] then
            (case dry_bytes_would_remove content of
               None \<Rightarrow> None
             | Some bytes_would_remove \<Rightarrow>
                 if bytes_would_remove > 0 then
                   Some (Inr (st\<lparr>modified_files := modified_files st + 1,
                                 total_bytes_removed := total_bytes_removed st + bytes_would_remove,
                                 world := print_out (''WOULD MODIFY: '' @ path_str file_path @ '' ('' @
                                            str_int bytes_would_remove @ '' bytes)'') (world st)\<rparr>))
                 else Some (Inr st))
          else Some (Inr st))"

text \<open>Lines 119 to 163: one pass of the loop over \<open>files\<close>.\<close>

definition process_file ::
  "string set option \<Rightarrow> string list option \<Rightarrow> bool \<Rightarrow> string \<Rightarrow> string \<Rightarrow> loop_state
     \<Rightarrow> loop_state option" where
  "process_file extensions exclude_patterns dry_run root file st =
     (let file_path = path_div (Path root) file in
      if startswith file ''.'' then Some st
      else if \<not> should_process_file file_path extensions exclude_patterns then Some st
      else
        (let st1 = st\<lparr>total_files := total_files st + 1\<rparr> in
         if dry_run then
           (case dry_run_try file_path st1 of
              None \<Rightarrow> None
            | Some (Inl (OSError e)) \<Rightarrow>
                Some (st1\<lparr>world := print_err (''Error reading '' @ path_str file_path @ '': '' @ e)
                                     (world st1)\<rparr>)
            | Some (Inr st2) \<Rightarrow> Some st2)
         else
           (case remove_trailing_newlines file_path (world st1) of
              None \<Rightarrow> None
            | Some ((was_modified, bytes_removed), w') \<Rightarrow>
                if was_modified then
                  Some (st1\<lparr>modified_files := modified_files st1 + 1,
                            total_bytes_removed := total_bytes_removed st1 + bytes_removed,
                            world := print_out (''Modified: '' @ path_str file_path @ '' ('' @
                                       str_int bytes_removed @ '' bytes removed)'') w'\<rparr>)
                else Some (st1\<lparr>world := w'\<rparr>))))"

text \<open>Line 118: the loop over the files of one directory.\<close>

fun process_files ::
  "string set option \<Rightarrow> string list option \<Rightarrow> bool \<Rightarrow> string \<Rightarrow> string list \<Rightarrow> loop_state
     \<Rightarrow> loop_state option" where
  "process_files extensions exclude_patterns dry_run root [] st = Some st"
| "process_files extensions exclude_patterns dry_run root (file # files) st =
     (case process_file extensions exclude_patterns dry_run root file st of
        None \<Rightarrow> None
      | Some st' \<Rightarrow> process_files extensions exclude_patterns dry_run root files st')"

text \<open>Line 114: the loop over what \<^verbatim>\<open>os.walk\<close> yields.\<close>

fun process_walk ::
  "string set option \<Rightarrow> string list option \<Rightarrow> bool \<Rightarrow> (string \<times> string list \<times> string list) list
     \<Rightarrow> loop_state \<Rightarrow> loop_state option" where
  "process_walk extensions exclude_patterns dry_run [] st = Some st"
| "process_walk extensions exclude_patterns dry_run ((root, dirs, files) # rest) st =
     (case process_files extensions exclude_patterns dry_run root files st of
        None \<Rightarrow> None
      | Some st' \<Rightarrow> process_walk extensions exclude_patterns dry_run rest st')"

text \<open>Lines 105 to 163: the state in which the loops end.  \<open>t\<close> is the directory
  structure at \<open>directory\<close>.\<close>

definition walk_directory ::
  "pure_path \<Rightarrow> tree \<Rightarrow> string set option \<Rightarrow> string list option \<Rightarrow> bool \<Rightarrow> world
     \<Rightarrow> loop_state option" where
  "walk_directory directory t extensions exclude_patterns dry_run w =
     (let w1 = print_out (''Processing directory: '' @ path_str directory) w;
          w2 = (if dry_run then print_out ''DRY RUN MODE - No files will be modified'' w1 else w1);
          w3 = print_out [] w2
      in process_walk extensions exclude_patterns dry_run
           (os_walk skip_hidden (path_str directory) t)
           \<lparr>total_files = 0, modified_files = 0, total_bytes_removed = 0, world = w3\<rparr>)"

text \<open>Lines 95 to 168: process_directory returns nothing; its result is the world.\<close>

definition process_directory ::
  "pure_path \<Rightarrow> tree \<Rightarrow> string set option \<Rightarrow> string list option \<Rightarrow> bool \<Rightarrow> world
     \<Rightarrow> world option" where
  "process_directory directory t extensions exclude_patterns dry_run w =
     (case walk_directory directory t extensions exclude_patterns dry_run w of
        None \<Rightarrow> None
      | Some st \<Rightarrow>
          Some (print_out (''Total bytes removed: '' @ str_int (total_bytes_removed st))
               (print_out (''Files modified: '' @ str_int (modified_files st))
               (print_out (''Files processed: '' @ str_int (total_files st))
               (print_out (CHR 0x0A # ''Summary:'') (world st))))))"

text \<open>Line 200: the default of \<^verbatim>\<open>--exclude\<close>.\<close>

definition default_exclude :: "string list" where
  "default_exclude = [''.git'', ''__pycache__'', ''node_modules'', ''.venv'', ''venv'']"


section \<open>Directories by the names that lead to them\<close>

text \<open>
  The walk that changes nothing in \<open>dirs\<close>, with every directory it yields paired with
  the chain of directory names that leads to it from the start directory.
\<close>

function walk_chains ::
  "string list \<Rightarrow> string \<Rightarrow> tree \<Rightarrow> (string list \<times> string \<times> string list \<times> string list) list"
where
  "walk_chains chain walk_top (Dir subs files) =
     (chain, walk_top, map fst subs, files) #
     concat (map (\<lambda>dirname.
                    case map_of subs dirname of
                      None \<Rightarrow> []
                    | Some t \<Rightarrow> walk_chains (chain @ [dirname]) (os_path_join walk_top dirname) t)
                 (map fst subs))"
  by pat_completeness auto

termination walk_chains
proof (relation "measure (\<lambda>(chain, walk_top, t). size t)", goal_cases)
  case 1
  show ?case by simp
next
  case (2 chain walk_top subs files dirname t)
  from 2(2) have "size t < Suc (size_list (size_prod (\<lambda>_. 0) size) subs)"
    by (induction subs) (auto split: if_splits)
  then show ?case by simp
qed

definition no_hidden :: "string list \<Rightarrow> bool" where
  "no_hidden chain = list_all (\<lambda>d. \<not> startswith d ''.'') chain"

text \<open>The directory structure without the directories whose name starts with a dot, at
  every depth.\<close>

fun prune_hidden :: "tree \<Rightarrow> tree" where
  "prune_hidden (Dir subs files) =
     Dir (map (\<lambda>(d, t). (d, prune_hidden t)) (filter (\<lambda>(d, t). \<not> startswith d ''.'') subs)) files"


section \<open>Names of directory entries\<close>

text \<open>
  A name that a directory listing can hold, as far as the parsing of paths matters:
  not empty, not a single dot, and without a slash.
\<close>

definition valid_name :: "string \<Rightarrow> bool" where
  "valid_name n \<longleftrightarrow> n \<noteq> [] \<and> n \<noteq> ''.'' \<and> CHR ''/'' \<notin> set n"

fun wf_tree :: "tree \<Rightarrow> bool" where
  "wf_tree (Dir subs files) \<longleftrightarrow>
     (\<forall>e \<in> set subs. valid_name (fst e) \<and> wf_tree (snd e)) \<and> (\<forall>f \<in> set files. valid_name f)"

definition parts_ok :: "string list \<Rightarrow> bool" where
  "parts_ok ps \<longleftrightarrow> (\<forall>p \<in> set ps. valid_name p)"


section \<open>A small directory to run the script on\<close>

text \<open>A start directory with a hidden directory and an image.  Writing README fails
  after the first byte, and the first file of the subdirectory cannot be read.\<close>

definition example_tree :: tree where
  "example_tree =
     Dir [(''.git'', Dir [(''hooks'', Dir [] [''pre-commit''])] [''config'']),
          (''src'', Dir [] [''m.py'', ''n.py''])]
         [''README'', ''logo.PNG'']"

definition example_fs :: filesystem where
  "example_fs =
     \<lparr>contents = [''README'' \<mapsto> [0x68, 0x69, LF], ''src/m.py'' \<mapsto> [0x78, CR, LF],
                  ''src/n.py'' \<mapsto> [0x79, LF]],
      read_fault = [''src/m.py'' \<mapsto> ''[Errno 13] Permission denied''],
      write_fault = [''README'' \<mapsto> WriteRaises 1 ''[Errno 28] No space left on device'']\<rparr>"

definition example_state :: loop_state where
  "example_state =
     \<lparr>total_files = 0, modified_files = 0, total_bytes_removed = 0,
      world = \<lparr>w_fs = example_fs, w_stdout = [], w_stderr = []\<rparr>\<rparr>"


section \<open>Properties of the Trimmer\<close>

subsection \<open>Slices of a sequence with a known last element\<close>

lemma last_slice_snoc: "last_slice (ys @ [x]) = [x]"
  by (simp add: last_slice_def)

lemma last_slice_Nil: "last_slice [] = []"
  by (simp add: last_slice_def)

lemma endswith_snoc1: "endswith (ys @ [x]) [a] \<longleftrightarrow> x = a"
  by (simp add: endswith_def)

lemma endswith_Nil: "endswith [] (a # as) \<longleftrightarrow> False"
  by (simp add: endswith_def)

lemma endswith_single2: "endswith [x] [a, b] \<longleftrightarrow> False"
  by (simp add: endswith_def)

lemma endswith_snoc2: "endswith (zs @ [w, x]) [a, b] \<longleftrightarrow> w = a \<and> x = b"
  by (simp add: endswith_def)

lemma drop_tail_snoc1: "drop_tail (Suc 0) (ys @ [x]) = ys"
  by (simp add: drop_tail_def)

lemma drop_tail_snoc2: "drop_tail 2 (zs @ [w, x]) = zs"
  by (simp add: drop_tail_def)

lemma trim_guard_iff: "trim_guard b \<longleftrightarrow> b \<noteq> [] \<and> (last b = LF \<or> last b = CR)"
  by (cases b rule: rev_cases) (simp_all add: trim_guard_def last_slice_snoc)

lemma trim_body_snoc:
  assumes "x = LF \<or> x = CR"
  shows "trim_body (ys @ [x]) =
           (if x = LF \<and> ys \<noteq> [] \<and> last ys = CR then butlast ys else ys)"
proof (cases ys rule: rev_cases)
  case Nil
  with assms show ?thesis
    using endswith_snoc1[of "[]" x] drop_tail_snoc1[of "[]" x]
    by (auto simp: trim_body_def endswith_single2)
next
  case (snoc zs w)
  with assms show ?thesis
    using endswith_snoc2[of zs w x] endswith_snoc1[of "zs @ [w]" x]
      drop_tail_snoc2[of zs w x] drop_tail_snoc1[of "zs @ [w]" x]
    by (auto simp: trim_body_def)
qed

lemma trim_body_shorter:
  assumes "trim_guard b"
  shows "length b = length (trim_body b) + 1 \<or> length b = length (trim_body b) + 2"
proof -
  from assms obtain ys x where b: "b = ys @ [x]" and x: "x = LF \<or> x = CR"
    by (auto simp: trim_guard_iff intro: rev_exhaust[of b])
  show ?thesis
    unfolding b trim_body_snoc[OF x] by (cases ys rule: rev_cases) auto
qed

text \<open>Any function that satisfies the loop equation returns the input without its
  trailing run of LF and CR bytes.\<close>

lemma loop_closed_form:
  assumes eq: "\<And>c. f c = (if trim_guard c then f (trim_body c) else Some c)"
  shows "f b = Some (rev (dropWhile (\<lambda>c. c = LF \<or> c = CR) (rev b)))"
proof (induction "length b" arbitrary: b rule: less_induct)
  case less
  show ?case
  proof (cases "trim_guard b")
    case False
    then have "dropWhile (\<lambda>c. c = LF \<or> c = CR) (rev b) = rev b"
      by (cases b rule: rev_cases) (auto simp: trim_guard_iff)
    with False show ?thesis
      by (subst eq) simp
  next
    case True
    then obtain ys x where b: "b = ys @ [x]" and x: "x = LF \<or> x = CR"
      by (auto simp: trim_guard_iff intro: rev_exhaust[of b])
    have len: "length (trim_body b) < length b"
      using trim_body_shorter[OF True] by arith
    have "f b = f (trim_body b)"
      using True by (subst eq) simp
    also have "\<dots> = Some (rev (dropWhile (\<lambda>c. c = LF \<or> c = CR) (rev (trim_body b))))"
      by (rule less[OF len])
    also have "dropWhile (\<lambda>c. c = LF \<or> c = CR) (rev (trim_body b)) =
               dropWhile (\<lambda>c. c = LF \<or> c = CR) (rev b)"
      unfolding b trim_body_snoc[OF x] using x
      by (cases ys rule: rev_cases) auto
    finally show ?thesis .
  qed
qed

lemma trim_loop_closed:
  "trim_loop b = Some (rev (dropWhile (\<lambda>c. c = LF \<or> c = CR) (rev b)))"
  by (rule loop_closed_form) (rule trim_loop.simps)

lemma dry_guard_eq: "dry_guard = trim_guard"
  by (rule ext) (simp add: dry_guard_def trim_guard_def)

lemma dry_body_eq: "dry_body = trim_body"
  by (rule ext) (simp add: dry_body_def trim_body_def)

lemma dry_loop_closed:
  "dry_loop b = Some (rev (dropWhile (\<lambda>c. c = LF \<or> c = CR) (rev b)))"
  by (rule loop_closed_form) (subst dry_loop.simps, simp add: dry_guard_eq dry_body_eq)

lemma trim_closed:
  "trim b = Some (rev (dropWhile (\<lambda>c. c = LF \<or> c = CR) (rev b)),
                  int (length b) - int (length (dropWhile (\<lambda>c. c = LF \<or> c = CR) (rev b))))"
  by (simp add: trim_def trim_loop_closed)


text \<open>
  Claim C1.  For every byte sequence \<open>b\<close> the trimming of lines 31 to 42 returns, and
  the content it returns (the one remove_trailing_newlines writes back) is empty or its
  last byte is neither LF nor CR.
\<close>

theorem trim_output_has_no_trailing_newline:
  "\<exists>new_bytes bytes_removed.
     trim b = Some (new_bytes, bytes_removed) \<and>
     (new_bytes = [] \<or> (last new_bytes \<noteq> LF \<and> last new_bytes \<noteq> CR))"
proof -
  let ?P = "\<lambda>c. c = LF \<or> c = CR"
  let ?d = "dropWhile ?P (rev b)"
  have "?d = [] \<or> \<not> ?P (hd ?d)"
    using hd_dropWhile[of ?P "rev b"] by blast
  then have "rev ?d = [] \<or> (last (rev ?d) \<noteq> LF \<and> last (rev ?d) \<noteq> CR)"
    by (cases ?d) auto
  then show ?thesis
    unfolding trim_closed by simp
qed

text \<open>The statement at a concrete input.\<close>

theorem trim_output_has_no_trailing_newline_witness:
  "trim [0x68, CR, LF, LF] = Some ([0x68], 3) \<and> last [0x68 :: byte] \<noteq> LF \<and> last [0x68 :: byte] \<noteq> CR"
  using trim_output_has_no_trailing_newline[of "[0x68, CR, LF, LF]"]
  by (simp add: trim_closed)

text \<open>
  Claim C2.  The length of the input is the length of the trimmed content plus
  \<open>bytes_removed\<close>, and \<open>bytes_removed\<close> is not negative.
\<close>

theorem trim_length_accounting:
  "\<exists>new_bytes bytes_removed.
     trim b = Some (new_bytes, bytes_removed) \<and>
     int (length b) = int (length new_bytes) + bytes_removed \<and> 0 \<le> bytes_removed"
proof -
  have "length (dropWhile (\<lambda>c. c = LF \<or> c = CR) (rev b)) \<le> length b"
    using length_dropWhile_le[of "\<lambda>c. c = LF \<or> c = CR" "rev b"] by simp
  then show ?thesis
    unfolding trim_closed by simp
qed

text \<open>The statement at a concrete input.\<close>

theorem trim_length_accounting_witness:
  "trim [0x68, CR, LF, CR, LF] = Some ([0x68], 4) \<and>
   int (length [0x68 :: byte, CR, LF, CR, LF]) = int (length [0x68 :: byte]) + 4"
  using trim_length_accounting[of "[0x68, CR, LF, CR, LF]"]
  by (simp add: trim_closed)

text \<open>
  Claim C4.  Trimming is idempotent: trimming the trimmed content returns it unchanged
  and removes 0 bytes.
\<close>

theorem trim_idempotent:
  "\<exists>new_bytes bytes_removed.
     trim b = Some (new_bytes, bytes_removed) \<and> trim new_bytes = Some (new_bytes, 0)"
  unfolding trim_closed by (simp add: dropWhile_idem)

text \<open>The statement at a concrete input.\<close>

theorem trim_idempotent_witness:
  "trim [CR, LF, 0x41, LF, CR] = Some ([CR, LF, 0x41], 2) \<and>
   trim [CR, LF, 0x41] = Some ([CR, LF, 0x41], 0)"
  using trim_idempotent[of "[CR, LF, 0x41, LF, CR]"]
  by (simp add: trim_closed)

text \<open>
  Claim C8.  A run of \<open>k \<ge> 1\<close> trailing CR bytes with no LF after it is stripped whole:
  for \<open>x\<close> not ending in LF or CR, trimming \<open>x\<close> followed by \<open>k\<close> CR bytes gives \<open>x\<close> and
  \<open>bytes_removed = k\<close>.
\<close>

theorem trailing_cr_run_fully_stripped:
  assumes "\<not> endswith x [LF]" and "\<not> endswith x [CR]" and "1 \<le> k"
  shows "trim (x @ replicate k CR) = Some (x, int k)"
proof -
  let ?P = "\<lambda>c. c = LF \<or> c = CR"
  have x: "dropWhile ?P (rev x) = rev x"
    using assms(1,2) by (cases x rule: rev_cases) (auto simp: endswith_snoc1)
  have "dropWhile ?P (rev (x @ replicate k CR)) = dropWhile ?P (rev x)"
    by (simp add: dropWhile_append)
  with x show ?thesis
    unfolding trim_closed by simp
qed

text \<open>The statement at a concrete input.\<close>

theorem trailing_cr_run_fully_stripped_witness:
  "\<not> endswith [0x78 :: byte] [LF] \<and> \<not> endswith [0x78 :: byte] [CR] \<and> 1 \<le> Suc (Suc 0) \<and>
   trim [0x78, CR, CR] = Some ([0x78], 2)"
proof -
  have h1: "\<not> endswith [0x78 :: byte] [LF]" and h2: "\<not> endswith [0x78 :: byte] [CR]"
    by (simp_all add: endswith_def)
  have h3: "1 \<le> Suc (Suc 0)" by simp
  from trailing_cr_run_fully_stripped[OF h1 h2 h3] h1 h2 show ?thesis by simp
qed

text \<open>
  Claim C9.  Both copies of the trim loop return for every byte sequence; a pass through
  the body runs only on a non-empty sequence and removes exactly one or two bytes.
\<close>

theorem trim_loops_terminate:
  "(\<exists>r. trim_loop b = Some r) \<and> (\<exists>r. dry_loop b = Some r) \<and>
   (trim_guard b \<longrightarrow>
      b \<noteq> [] \<and> (length b = length (trim_body b) + 1 \<or> length b = length (trim_body b) + 2)) \<and>
   (dry_guard b \<longrightarrow>
      b \<noteq> [] \<and> (length b = length (dry_body b) + 1 \<or> length b = length (dry_body b) + 2))"
  using trim_body_shorter[of b]
  by (auto simp: trim_loop_closed dry_loop_closed dry_guard_eq dry_body_eq trim_guard_iff)

text \<open>The statement at a concrete input.\<close>

theorem trim_loops_terminate_witness:
  "trim_loop [0x78, CR, LF] = Some [0x78] \<and> dry_loop [0x78, CR, LF] = Some [0x78] \<and>
   trim_guard [0x78, CR, LF] \<and> length [0x78 :: byte, CR, LF] = length (trim_body [0x78, CR, LF]) + 2 \<and>
   dry_guard [0x78, CR, LF] \<and> length [0x78 :: byte, CR, LF] = length (dry_body [0x78, CR, LF]) + 2"
  using trim_loops_terminate[of "[0x78, CR, LF]"]
  by (simp add: trim_loop_closed dry_loop_closed trim_guard_def dry_guard_def last_slice_def
      trim_body_def dry_body_def endswith_def drop_tail_def)




section \<open>Properties of the Filter\<close>

text \<open>
  Claim C5.  A path whose lower-cased suffix is in the binary deny-list is rejected by
  should_process_file, whatever the allow-list of extensions and the exclude patterns are.
  When the walker builds such a path for a file, the pass of its loop leaves the state
  as it is: the file is not counted, read or written.
\<close>

theorem binary_extension_never_processed:
  assumes "str_lower (path_suffix file_path) \<in> binary_extensions"
  shows "should_process_file file_path extensions exclude_patterns = False \<and>
         (file_path = path_div (Path root) fname \<longrightarrow>
            process_file extensions exclude_patterns dry_run root fname st = Some st)"
proof -
  from assms have rejected: "\<not> should_process_file file_path extensions exclude_patterns"
    by (simp add: should_process_file_def)
  then have "process_file extensions exclude_patterns dry_run root fname st = Some st"
    if "file_path = path_div (Path root) fname"
    using that by (simp add: process_file_def Let_def)
  with rejected show ?thesis by simp
qed

lemma takeWhile_absent: "c \<notin> set ys \<Longrightarrow> takeWhile (\<lambda>x. x \<noteq> c) ys = ys"
  by (induction ys) auto

lemma rfind_Nil: "rfind c [] = - 1"
  by (simp add: rfind_def)

lemma rfind_Cons:
  "rfind c (x # xs) = (if c \<in> set xs then 1 + rfind c xs else if x = c then 0 else - 1)"
proof (cases "c \<in> set xs")
  case True
  then show ?thesis by (simp add: rfind_def takeWhile_append1 takeWhile_tail)
next
  case False
  then have tw: "takeWhile (\<lambda>x. x \<noteq> c) (rev xs) = rev xs"
    by (simp add: takeWhile_absent)
  from False show ?thesis by (simp add: rfind_def takeWhile_tail tw)
qed

lemmas rfind_eval = rfind_Nil rfind_Cons

lemma png_suffix: "str_lower (path_suffix (path_div (Path ''.'') ''logo.PNG'')) = ''.png''"
  by (simp add: path_div_def Path_def posix_root_def startswith_def path_suffix_def path_name_def
      rfind_eval str_lower_def char_lower_def)

text \<open>The statement at a concrete input.\<close>

theorem binary_extension_never_processed_witness:
  "str_lower (path_suffix (path_div (Path ''.'') ''logo.PNG'')) \<in> binary_extensions \<and>
   should_process_file (path_div (Path ''.'') ''logo.PNG'') (Some {''.png''}) (Some default_exclude) =
     False \<and>
   process_file (Some {''.png''}) (Some default_exclude) False ''.'' ''logo.PNG'' example_state =
     Some example_state"
proof -
  have h: "str_lower (path_suffix (path_div (Path ''.'') ''logo.PNG'')) \<in> binary_extensions"
    unfolding png_suffix by (simp add: binary_extensions_def)
  from binary_extension_never_processed[OF h, of "Some {''.png''}" "Some default_exclude"
      "''.''" "''logo.PNG''" False example_state] h
  show ?thesis by simp
qed


section \<open>Properties of the Walker\<close>

subsection \<open>The two trim computations agree\<close>

lemma dry_bytes_closed:
  "dry_bytes_would_remove b =
     Some (int (length b) - int (length (dropWhile (\<lambda>c. c = LF \<or> c = CR) (rev b))))"
  by (simp add: dry_bytes_would_remove_def dry_loop_closed)

lemma write_file_ok:
  "write_fault fsys p = None \<Longrightarrow>
   write_file fsys p c = (None, fsys\<lparr>contents := (contents fsys)(p \<mapsto> c)\<rparr>)"
  by (simp add: write_file_def)

text \<open>
  Claim C3.  The loop of the dry-run branch and the loop of remove_trailing_newlines
  return the same content for every byte sequence, so \<open>bytes_would_remove\<close> is the
  \<open>bytes_removed\<close> of the trimming.  On a file that holds \<open>b\<close> and can be written, what
  remove_trailing_newlines returns is what the dry-run branch adds to the counters, and
  the dry-run branch leaves the files as they are.
\<close>

theorem dry_run_computes_same_bytes_removed:
  "dry_loop b = trim_loop b \<and>
   dry_bytes_would_remove b = map_option snd (trim b) \<and>
   (read_file (w_fs (world st)) (path_str file_path) = Inr b \<and>
    write_fault (w_fs (world st)) (path_str file_path) = None \<longrightarrow>
      (\<exists>bytes_removed w' st'.
         remove_trailing_newlines file_path (world st) = Some ((0 < bytes_removed, bytes_removed), w') \<and>
         dry_run_try file_path st = Some (Inr st') \<and>
         total_bytes_removed st' = total_bytes_removed st + bytes_removed \<and>
         modified_files st' = modified_files st + (if 0 < bytes_removed then 1 else 0) \<and>
         w_fs (world st') = w_fs (world st)))"
proof (intro conjI impI)
  show "dry_loop b = trim_loop b"
    by (simp add: dry_loop_closed trim_loop_closed)
  show "dry_bytes_would_remove b = map_option snd (trim b)"
    by (simp add: dry_bytes_closed trim_closed)
next
  let ?k = "int (length b) - int (length (dropWhile (\<lambda>c. c = LF \<or> c = CR) (rev b)))"
  assume rw: "read_file (w_fs (world st)) (path_str file_path) = Inr b \<and>
              write_fault (w_fs (world st)) (path_str file_path) = None"
  have le: "length (dropWhile (\<lambda>c. c = LF \<or> c = CR) (rev b)) \<le> length b"
    using length_dropWhile_le[of "\<lambda>c. c = LF \<or> c = CR" "rev b"] by simp
  have apply_mode: "\<exists>w'. remove_trailing_newlines file_path (world st) = Some ((0 < ?k, ?k), w')"
    using rw le
    by (cases "b = []")
       (simp_all add: remove_trailing_newlines_def remove_trailing_newlines_try_def trim_closed
          write_file_ok)
  have dry_mode: "\<exists>st'. dry_run_try file_path st = Some (Inr st') \<and>
         total_bytes_removed st' = total_bytes_removed st + ?k \<and>
         modified_files st' = modified_files st + (if 0 < ?k then 1 else 0) \<and>
         w_fs (world st') = w_fs (world st)"
    using rw le
    by (cases "b = []") (simp_all add: dry_run_try_def dry_bytes_closed print_out_def)
  from apply_mode dry_mode
  show "\<exists>bytes_removed w' st'.
         remove_trailing_newlines file_path (world st) = Some ((0 < bytes_removed, bytes_removed), w') \<and>
         dry_run_try file_path st = Some (Inr st') \<and>
         total_bytes_removed st' = total_bytes_removed st + bytes_removed \<and>
         modified_files st' = modified_files st + (if 0 < bytes_removed then 1 else 0) \<and>
         w_fs (world st') = w_fs (world st)"
    by blast
qed


subsection \<open>Every pass of the loops returns\<close>

lemma remove_trailing_newlines_try_returns:
  "\<exists>r. remove_trailing_newlines_try file_path w = Some r"
  by (auto simp: remove_trailing_newlines_try_def trim_closed split: sum.splits prod.splits option.splits)

lemma remove_trailing_newlines_returns:
  "\<exists>r. remove_trailing_newlines file_path w = Some r"
proof -
  obtain r w' where "remove_trailing_newlines_try file_path w = Some (r, w')"
    using remove_trailing_newlines_try_returns[of file_path w] by (metis surj_pair)
  then show ?thesis
    by (cases r) (auto simp: remove_trailing_newlines_def split: io_error.splits)
qed

lemma dry_run_try_returns: "\<exists>r. dry_run_try file_path st = Some r"
  by (auto simp: dry_run_try_def dry_bytes_closed split: sum.splits)

lemma process_file_returns:
  "\<exists>st'. process_file extensions exclude_patterns dry_run root fname st = Some st'"
proof -
  obtain r where r: "remove_trailing_newlines (path_div (Path root) fname)
      (world st) = Some r"
    using remove_trailing_newlines_returns by blast
  obtain d where d: "dry_run_try (path_div (Path root) fname)
      (st\<lparr>total_files := total_files st + 1\<rparr>) = Some d"
    using dry_run_try_returns by blast
  from r d show ?thesis
    by (cases r; cases d)
       (auto simp: process_file_def Let_def split: sum.splits io_error.splits prod.splits)
qed

lemma process_files_returns:
  "\<exists>st'. process_files extensions exclude_patterns dry_run root files st = Some st'"
proof (induction files arbitrary: st)
  case Nil
  show ?case by simp
next
  case (Cons name names)
  obtain st1 where "process_file extensions exclude_patterns dry_run root name st = Some st1"
    using process_file_returns by blast
  with Cons[of st1] show ?case by simp
qed

lemma process_walk_returns:
  "\<exists>st'. process_walk extensions exclude_patterns dry_run triples st = Some st'"
proof (induction triples arbitrary: st)
  case Nil
  show ?case by simp
next
  case (Cons triple triples)
  obtain root dirs files where triple: "triple = (root, dirs, files)"
    by (cases triple) auto
  obtain st1 where "process_files extensions exclude_patterns dry_run root files st = Some st1"
    using process_files_returns by blast
  with Cons[of st1] triple show ?case by simp
qed

text \<open>A run always reaches its summary, whatever the faults of the files.\<close>

lemma process_directory_returns:
  "\<exists>w'. process_directory directory t extensions exclude_patterns dry_run w = Some w'"
proof -
  obtain st where "walk_directory directory t extensions exclude_patterns dry_run w = Some st"
    unfolding walk_directory_def Let_def using process_walk_returns by blast
  then show ?thesis by (simp add: process_directory_def)
qed

text \<open>The loops run their lists in order: a list in two pieces is the first piece and
  then the second, from the state the first piece ends in.\<close>

lemma process_files_append:
  "process_files extensions exclude_patterns dry_run root (xs @ ys) st =
     Option.bind (process_files extensions exclude_patterns dry_run root xs st)
       (process_files extensions exclude_patterns dry_run root ys)"
  by (induction xs arbitrary: st) (auto split: option.splits)

lemma process_walk_append:
  "process_walk extensions exclude_patterns dry_run (xs @ ys) st =
     Option.bind (process_walk extensions exclude_patterns dry_run xs st)
       (process_walk extensions exclude_patterns dry_run ys)"
proof (induction xs arbitrary: st)
  case Nil
  show ?case by simp
next
  case (Cons triple xs)
  obtain root dirs files where "triple = (root, dirs, files)"
    by (cases triple) auto
  with Cons show ?case
    by (auto split: option.splits)
qed

subsection \<open>A file that cannot be read or written\<close>

lemma world_same_fs: "w\<lparr>w_fs := w_fs w\<rparr> = w"
  by simp

lemma remove_trailing_newlines_read_error:
  assumes "read_file (w_fs w) (path_str file_path) = Inl (OSError e)"
  shows "remove_trailing_newlines file_path w =
           Some ((False, 0), print_err (''Error processing '' @ path_str file_path @ '': '' @ e) w)"
  using assms by (simp add: remove_trailing_newlines_def remove_trailing_newlines_try_def)

lemma remove_trailing_newlines_write_error:
  assumes "read_file (w_fs w) (path_str file_path) = Inr content"
    and "trim content = Some (content', k)" and "0 < k"
    and "write_file (w_fs w) (path_str file_path) content' = (Some (OSError e), fs')"
  shows "remove_trailing_newlines file_path w =
           Some ((False, 0),
                 print_err (''Error processing '' @ path_str file_path @ '': '' @ e)
                   (w\<lparr>w_fs := fs'\<rparr>))"
proof -
  from assms(2,3) have "content \<noteq> []"
    by (auto simp: trim_closed)
  with assms show ?thesis
    by (simp add: remove_trailing_newlines_def remove_trailing_newlines_try_def)
qed

lemma write_file_other_paths:
  assumes "write_file fsys p c = (r, fs')" and "q \<noteq> p"
  shows "contents fs' q = contents fsys q"
  using assms by (auto simp: write_file_def split: option.splits write_failure.splits)

text \<open>
  Claim C7.  A qualifying file on which reading raises OSError (in either mode), or on
  which writing raises it (when the script is not in dry-run mode), anywhere in the
  traversal: files \<open>fpre\<close> precede it in its directory and directories \<open>before\<close> precede
  that directory.  Then remove_trailing_newlines returns \<open>(False, 0)\<close>, one line with the
  path and the cause goes to the diagnostic stream, \<open>modified_files\<close> and
  \<open>total_bytes_removed\<close> keep their values, and no other file is touched (the file itself
  may have been truncated by the failed write).  The traversal is not aborted: it goes on
  with the remaining files \<open>rest\<close> of the directory and then with the remaining
  directories \<open>later\<close>, and it returns; when the traversal is that of a run of
  process_directory, the run ends with its summary.
\<close>

theorem per_file_io_error_is_isolated:
  fixes root fname :: string and st st0 :: loop_state and w :: world
  defines "file_path \<equiv> path_div (Path root) fname"
  defines "fsys \<equiv> w_fs (world st)"
  defines "line \<equiv> \<lambda>dry_run e.
     (if dry_run then ''Error reading '' else ''Error processing '') @ path_str file_path @ '': '' @ e"
  defines "after \<equiv> \<lambda>dry_run e fs'.
     st\<lparr>total_files := total_files st + 1,
        world := print_err (line dry_run e) ((world st)\<lparr>w_fs := fs'\<rparr>)\<rparr>"
  defines "start \<equiv> \<lambda>directory dry_run.
     \<lparr>total_files = 0, modified_files = 0, total_bytes_removed = 0,
      world = print_out []
        (if dry_run
         then print_out ''DRY RUN MODE - No files will be modified''
                (print_out (''Processing directory: '' @ path_str directory) w)
         else print_out (''Processing directory: '' @ path_str directory) w)\<rparr>"
  assumes visible: "\<not> startswith fname ''.''"
    and qualifies: "should_process_file file_path extensions exclude_patterns"
    and fails:
      "(read_file fsys (path_str file_path) = Inl (OSError e) \<and> fs' = fsys) \<or>
       (\<not> dry_run \<and>
        (\<exists>content content' k.
           read_file fsys (path_str file_path) = Inr content \<and>
           trim content = Some (content', k) \<and> 0 < k \<and>
           write_file fsys (path_str file_path) content' = (Some (OSError e), fs')))"
    and reach_directory:
      "process_walk extensions exclude_patterns dry_run before st0 = Some st1"
    and reach_file:
      "process_files extensions exclude_patterns dry_run root fpre st1 = Some st"
  shows "remove_trailing_newlines file_path (world st) =
           Some ((False, 0), print_err (line False e) ((world st)\<lparr>w_fs := fs'\<rparr>)) \<and>
         process_file extensions exclude_patterns dry_run root fname st =
           Some (after dry_run e fs') \<and>
         modified_files (after dry_run e fs') = modified_files st \<and>
         total_bytes_removed (after dry_run e fs') = total_bytes_removed st \<and>
         w_stderr (world (after dry_run e fs')) = w_stderr (world st) @ [line dry_run e] \<and>
         (\<forall>q. q \<noteq> path_str file_path \<longrightarrow> contents fs' q = contents fsys q) \<and>
         process_walk extensions exclude_patterns dry_run
             (before @ (root, dirs, fpre @ fname # rest) # later) st0 =
           Option.bind
             (process_files extensions exclude_patterns dry_run root rest (after dry_run e fs'))
             (process_walk extensions exclude_patterns dry_run later) \<and>
         (\<exists>final.
            process_walk extensions exclude_patterns dry_run
              (before @ (root, dirs, fpre @ fname # rest) # later) st0 = Some final) \<and>
         (os_walk skip_hidden (path_str directory) t =
            before @ (root, dirs, fpre @ fname # rest) # later \<and>
          st0 = start directory dry_run \<longrightarrow>
            (\<exists>final.
               Option.bind
                 (process_files extensions exclude_patterns dry_run root rest
                    (after dry_run e fs'))
                 (process_walk extensions exclude_patterns dry_run later) = Some final \<and>
               walk_directory directory t extensions exclude_patterns dry_run w = Some final \<and>
               process_directory directory t extensions exclude_patterns dry_run w =
                 Some (print_out (''Total bytes removed: '' @ str_int (total_bytes_removed final))
                      (print_out (''Files modified: '' @ str_int (modified_files final))
                      (print_out (''Files processed: '' @ str_int (total_files final))
                      (print_out (CHR 0x0A # ''Summary:'') (world final)))))))"
proof -
  let ?list = "before @ (root, dirs, fpre @ fname # rest) # later"
  let ?cont = "Option.bind
      (process_files extensions exclude_patterns dry_run root rest (after dry_run e fs'))
      (process_walk extensions exclude_patterns dry_run later)"
  have rtn: "remove_trailing_newlines file_path (world st) =
           Some ((False, 0), print_err (line False e) ((world st)\<lparr>w_fs := fs'\<rparr>))"
  proof -
    from fails consider
      (rd) "read_file fsys (path_str file_path) = Inl (OSError e)" "fs' = fsys"
      | (wr) content content' k where "read_file fsys (path_str file_path) = Inr content"
          "trim content = Some (content', k)" "0 < k"
          "write_file fsys (path_str file_path) content' = (Some (OSError e), fs')"
      by blast
    then show ?thesis
    proof cases
      case rd
      then show ?thesis
        using remove_trailing_newlines_read_error[of "world st" file_path e]
        by (simp add: fsys_def line_def)
    next
      case wr
      then show ?thesis
        using remove_trailing_newlines_write_error[of "world st" file_path content content' k e fs']
        by (simp add: fsys_def line_def)
    qed
  qed
  have pf: "process_file extensions exclude_patterns dry_run root fname st =
              Some (after dry_run e fs')"
  proof (cases dry_run)
    case True
    with fails have rd: "read_file fsys (path_str file_path) = Inl (OSError e)" "fs' = fsys"
      by blast+
    then have "dry_run_try file_path (st\<lparr>total_files := total_files st + 1\<rparr>) =
                 Some (Inl (OSError e))"
      by (simp add: dry_run_try_def fsys_def)
    with True visible qualifies rd(2) show ?thesis
      by (simp add: process_file_def file_path_def[symmetric] after_def line_def fsys_def)
  next
    case False
    with visible qualifies rtn show ?thesis
      by (simp add: process_file_def file_path_def[symmetric] after_def line_def)
  qed
  have others: "\<forall>q. q \<noteq> path_str file_path \<longrightarrow> contents fs' q = contents fsys q"
    using fails by (auto dest: write_file_other_paths)
  have "process_files extensions exclude_patterns dry_run root (fpre @ fname # rest) st1 =
          process_files extensions exclude_patterns dry_run root rest (after dry_run e fs')"
    by (simp add: process_files_append reach_file pf)
  then have cont: "process_walk extensions exclude_patterns dry_run ?list st0 = ?cont"
    by (simp add: process_walk_append reach_directory split: option.splits)
  have fin: "\<exists>final. process_walk extensions exclude_patterns dry_run ?list st0 = Some final"
    by (rule process_walk_returns)
  have run: "\<exists>final. ?cont = Some final \<and>
               walk_directory directory t extensions exclude_patterns dry_run w = Some final \<and>
               process_directory directory t extensions exclude_patterns dry_run w =
                 Some (print_out (''Total bytes removed: '' @ str_int (total_bytes_removed final))
                      (print_out (''Files modified: '' @ str_int (modified_files final))
                      (print_out (''Files processed: '' @ str_int (total_files final))
                      (print_out (CHR 0x0A # ''Summary:'') (world final)))))"
    if walk: "os_walk skip_hidden (path_str directory) t = ?list"
      and st0: "st0 = start directory dry_run"
  proof -
    from fin cont obtain final where final: "?cont = Some final"
      by auto
    have "walk_directory directory t extensions exclude_patterns dry_run w =
            process_walk extensions exclude_patterns dry_run ?list st0"
      unfolding walk_directory_def Let_def walk st0 start_def by simp
    with cont final have wd: "walk_directory directory t extensions exclude_patterns dry_run w =
            Some final"
      by simp
    then have "process_directory directory t extensions exclude_patterns dry_run w =
                 Some (print_out (''Total bytes removed: '' @ str_int (total_bytes_removed final))
                      (print_out (''Files modified: '' @ str_int (modified_files final))
                      (print_out (''Files processed: '' @ str_int (total_files final))
                      (print_out (CHR 0x0A # ''Summary:'') (world final)))))"
      by (simp add: process_directory_def)
    with final wd show ?thesis by blast
  qed
  have "modified_files (after dry_run e fs') = modified_files st"
    and "total_bytes_removed (after dry_run e fs') = total_bytes_removed st"
    and "w_stderr (world (after dry_run e fs')) = w_stderr (world st) @ [line dry_run e]"
    by (simp_all add: after_def print_err_def)
  with rtn pf others cont fin run show ?thesis by blast
qed

lemmas path_eval =
  path_div_def Path_def posix_root_def startswith_def endswith_def path_str_def path_name_def
  path_suffix_def rfind_Nil rfind_Cons str_lower_def char_lower_def os_path_join_def

lemmas run_eval =
  should_process_file_def binary_extensions_def default_exclude_def process_file_def
  remove_trailing_newlines_def remove_trailing_newlines_try_def dry_run_try_def
  read_file_def write_file_def print_out_def print_err_def trim_closed dry_bytes_closed
  str_int_def str_nat.simps skip_hidden_def example_fs_def example_state_def example_tree_def

lemma ex_path_m: "path_div (Path ''./src'') ''m.py'' = PurePath [] [''src'', ''m.py'']"
  by (simp add: path_eval)

lemma ex_path_n: "path_div (Path ''./src'') ''n.py'' = PurePath [] [''src'', ''n.py'']"
  by (simp add: path_eval)

lemma ex_path_readme: "path_div (Path ''.'') ''README'' = PurePath [] [''README'']"
  by (simp add: path_eval)

lemma ex_path_logo: "path_div (Path ''.'') ''logo.PNG'' = PurePath [] [''logo.PNG'']"
  by (simp add: path_eval)

lemma ex_qual_m: "should_process_file (PurePath [] [''src'', ''m.py'']) None (Some default_exclude)"
  by (simp add: path_eval run_eval)

lemma ex_qual_n: "should_process_file (PurePath [] [''src'', ''n.py'']) None (Some default_exclude)"
  by (simp add: path_eval run_eval)

lemma ex_qual_readme: "should_process_file (PurePath [] [''README'']) None (Some default_exclude)"
  by (simp add: path_eval run_eval)

lemma ex_qual_logo:
  "\<not> should_process_file (PurePath [] [''logo.PNG'']) None (Some default_exclude)"
  by (simp add: path_eval run_eval)

lemma ex_walk:
  "os_walk skip_hidden ''.'' example_tree =
     [(''.'', [''.git'', ''src''], [''README'', ''logo.PNG'']),
      (''./src'', [], [''m.py'', ''n.py''])]"
  by (simp add: example_tree_def skip_hidden_def os_path_join_def startswith_def endswith_def)

lemma ex_run_src:
  "process_files None (Some default_exclude) False ''./src'' [''m.py'', ''n.py'']
     \<lparr>total_files = 1, modified_files = 0, total_bytes_removed = 0,
      world = \<lparr>w_fs = example_fs\<lparr>contents := (contents example_fs)(''README'' \<mapsto> [0x68])\<rparr>,
               w_stdout = [''Processing directory: .'', []],
               w_stderr = [''Error processing README: [Errno 28] No space left on device'']\<rparr>\<rparr> =
     Some \<lparr>total_files = 3, modified_files = 1, total_bytes_removed = 1,
           world = \<lparr>w_fs = example_fs\<lparr>contents :=
                             (contents example_fs)(''README'' \<mapsto> [0x68], ''src/n.py'' \<mapsto> [0x79])\<rparr>,
                    w_stdout = [''Processing directory: .'', [],
                                ''Modified: src/n.py (1 bytes removed)''],
                    w_stderr = [''Error processing README: [Errno 28] No space left on device'',
                                ''Error processing src/m.py: [Errno 13] Permission denied'']\<rparr>\<rparr>"
  by (simp add: ex_path_m ex_path_n ex_qual_m ex_qual_n process_file_def
      remove_trailing_newlines_def remove_trailing_newlines_try_def
      read_file_def write_file_def print_out_def print_err_def trim_closed
      str_int_def str_nat.simps example_fs_def startswith_def path_str_def)

text \<open>The statement at a concrete input: the run on the small directory, where writing
  README fails in the first directory and the second directory is still processed.\<close>

theorem per_file_io_error_is_isolated_witness:
  "\<not> startswith ''README'' ''.'' \<and>
   should_process_file (path_div (Path ''.'') ''README'') None (Some default_exclude) \<and>
   read_file example_fs ''README'' = Inr [0x68, 0x69, LF] \<and>
   trim [0x68, 0x69, LF] = Some ([0x68, 0x69], 1) \<and>
   write_file example_fs ''README'' [0x68, 0x69] =
     (Some (OSError ''[Errno 28] No space left on device''),
      example_fs\<lparr>contents := (contents example_fs)(''README'' \<mapsto> [0x68])\<rparr>) \<and>
   os_walk skip_hidden (path_str (Path ''.'')) example_tree =
     [(''.'', [''.git'', ''src''], [''README'', ''logo.PNG'']),
      (''./src'', [], [''m.py'', ''n.py''])] \<and>
   process_directory (Path ''.'') example_tree None (Some default_exclude) False
       (world example_state) =
     Some \<lparr>w_fs = example_fs\<lparr>contents :=
                      (contents example_fs)(''README'' \<mapsto> [0x68], ''src/n.py'' \<mapsto> [0x79])\<rparr>,
           w_stdout = [''Processing directory: .'', [],
                       ''Modified: src/n.py (1 bytes removed)'',
                       CHR 0x0A # ''Summary:'', ''Files processed: 3'', ''Files modified: 1'',
                       ''Total bytes removed: 1''],
           w_stderr = [''Error processing README: [Errno 28] No space left on device'',
                       ''Error processing src/m.py: [Errno 13] Permission denied'']\<rparr>"
proof -
  let ?start = "\<lparr>total_files = 0, modified_files = 0, total_bytes_removed = 0,
      world = \<lparr>w_fs = example_fs, w_stdout = [''Processing directory: .'', []],
               w_stderr = []\<rparr>\<rparr>"
  let ?e = "''[Errno 28] No space left on device''"
  let ?fs' = "example_fs\<lparr>contents := (contents example_fs)(''README'' \<mapsto> [0x68])\<rparr>"
  have dot: "path_str (Path ''.'') = ''.''"
    by (simp add: path_eval)
  have p: "path_str (path_div (Path ''.'') ''README'') = ''README''"
    by (simp add: ex_path_readme path_str_def)
  have h1: "\<not> startswith ''README'' ''.''"
    by (simp add: startswith_def)
  have h2: "should_process_file (path_div (Path ''.'') ''README'') None (Some default_exclude)"
    by (simp add: ex_path_readme ex_qual_readme)
  have r: "read_file example_fs ''README'' = Inr [0x68, 0x69, LF]"
    by (simp add: example_fs_def read_file_def)
  have t: "trim [0x68, 0x69, LF] = Some ([0x68, 0x69], 1)"
    by (simp add: trim_closed)
  have wr: "write_file example_fs ''README'' [0x68, 0x69] = (Some (OSError ?e), ?fs')"
    by (simp add: example_fs_def write_file_def)
  have h3: "(read_file (w_fs (world ?start)) (path_str (path_div (Path ''.'') ''README'')) =
               Inl (OSError ?e) \<and> ?fs' = w_fs (world ?start)) \<or>
       (\<not> False \<and>
        (\<exists>content content' k.
           read_file (w_fs (world ?start)) (path_str (path_div (Path ''.'') ''README'')) =
             Inr content \<and>
           trim content = Some (content', k) \<and> 0 < k \<and>
           write_file (w_fs (world ?start)) (path_str (path_div (Path ''.'') ''README''))
             content' = (Some (OSError ?e), ?fs')))"
  proof -
    have "read_file (w_fs (world ?start)) (path_str (path_div (Path ''.'') ''README'')) =
             Inr [0x68, 0x69, LF] \<and>
           trim [0x68, 0x69, LF] = Some ([0x68, 0x69], 1) \<and> (0 :: int) < 1 \<and>
           write_file (w_fs (world ?start)) (path_str (path_div (Path ''.'') ''README''))
             [0x68, 0x69] = (Some (OSError ?e), ?fs')"
      unfolding p using r t wr by simp
    then show ?thesis by blast
  qed
  have h4: "process_walk None (Some default_exclude) False [] ?start = Some ?start"
    by simp
  have h5: "process_files None (Some default_exclude) False ''.'' [] ?start = Some ?start"
    by simp
  note inst = per_file_io_error_is_isolated[OF h1 h2 h3 h4 h5]
  note readme = inst[THEN conjunct2, THEN conjunct1]
  have after_readme:
    "process_file None (Some default_exclude) False ''.'' ''README'' ?start =
       Some \<lparr>total_files = 1, modified_files = 0, total_bytes_removed = 0,
             world = \<lparr>w_fs = ?fs', w_stdout = [''Processing directory: .'', []],
                      w_stderr = [''Error processing README: [Errno 28] No space left on device'']\<rparr>\<rparr>"
    using readme by (simp add: p print_err_def)
  have after_logo:
    "process_file None (Some default_exclude) False ''.'' ''logo.PNG'' st = Some st" for st
    by (simp add: process_file_def ex_path_logo ex_qual_logo startswith_def)
  have walk: "os_walk skip_hidden (path_str (Path ''.'')) example_tree =
     [(''.'', [''.git'', ''src''], [''README'', ''logo.PNG'']),
      (''./src'', [], [''m.py'', ''n.py''])]"
    unfolding dot by (rule ex_walk)
  have start: "print_out [] (print_out (''Processing directory: '' @ path_str (Path ''.''))
                 (world example_state)) = world ?start"
    by (simp add: dot print_out_def example_state_def)
  have "walk_directory (Path ''.'') example_tree None (Some default_exclude) False
          (world example_state) =
        process_walk None (Some default_exclude) False
          [(''.'', [''.git'', ''src''], [''README'', ''logo.PNG'']),
           (''./src'', [], [''m.py'', ''n.py''])] ?start"
    unfolding walk_directory_def Let_def walk if_False start by simp
  also have "\<dots> =
      Some \<lparr>total_files = 3, modified_files = 1, total_bytes_removed = 1,
           world = \<lparr>w_fs = example_fs\<lparr>contents :=
                             (contents example_fs)(''README'' \<mapsto> [0x68], ''src/n.py'' \<mapsto> [0x79])\<rparr>,
                    w_stdout = [''Processing directory: .'', [],
                                ''Modified: src/n.py (1 bytes removed)''],
                    w_stderr = [''Error processing README: [Errno 28] No space left on device'',
                                ''Error processing src/m.py: [Errno 13] Permission denied'']\<rparr>\<rparr>"
  proof -
    have "process_files None (Some default_exclude) False ''.'' [''README'', ''logo.PNG''] ?start =
       Some \<lparr>total_files = 1, modified_files = 0, total_bytes_removed = 0,
             world = \<lparr>w_fs = ?fs', w_stdout = [''Processing directory: .'', []],
                      w_stderr = [''Error processing README: [Errno 28] No space left on device'']\<rparr>\<rparr>"
      by (simp add: after_readme after_logo)
    then show ?thesis
      by (simp only: process_walk.simps ex_run_src option.case)
  qed
  finally have "process_directory (Path ''.'') example_tree None (Some default_exclude) False
       (world example_state) =
     Some \<lparr>w_fs = example_fs\<lparr>contents :=
                      (contents example_fs)(''README'' \<mapsto> [0x68], ''src/n.py'' \<mapsto> [0x79])\<rparr>,
           w_stdout = [''Processing directory: .'', [],
                       ''Modified: src/n.py (1 bytes removed)'',
                       CHR 0x0A # ''Summary:'', ''Files processed: 3'', ''Files modified: 1'',
                       ''Total bytes removed: 1''],
           w_stderr = [''Error processing README: [Errno 28] No space left on device'',
                       ''Error processing src/m.py: [Errno 13] Permission denied'']\<rparr>"
    by (simp add: process_directory_def print_out_def str_int_def str_nat.simps)
  with h1 h2 r t wr walk show ?thesis
    by (intro conjI)
qed

text \<open>The statement at a concrete input.\<close>

theorem dry_run_computes_same_bytes_removed_witness:
  "read_file (w_fs (world example_state)) (path_str (path_div (Path ''./src'') ''n.py'')) =
     Inr [0x79, LF] \<and>
   write_fault (w_fs (world example_state)) (path_str (path_div (Path ''./src'') ''n.py'')) = None \<and>
   dry_loop [0x79, LF] = Some [0x79] \<and>
   trim_loop [0x79, LF] = Some [0x79] \<and>
   dry_bytes_would_remove [0x79, LF] = Some 1 \<and>
   map_option snd (trim [0x79, LF]) = Some 1 \<and>
   (\<exists>bytes_removed w' st'.
      remove_trailing_newlines (path_div (Path ''./src'') ''n.py'') (world example_state) =
        Some ((0 < bytes_removed, bytes_removed), w') \<and>
      dry_run_try (path_div (Path ''./src'') ''n.py'') example_state = Some (Inr st') \<and>
      total_bytes_removed st' = total_bytes_removed example_state + bytes_removed \<and>
      modified_files st' = modified_files example_state + (if 0 < bytes_removed then 1 else 0) \<and>
      w_fs (world st') = w_fs (world example_state))"
proof -
  have h: "read_file (w_fs (world example_state)) (path_str (path_div (Path ''./src'') ''n.py'')) =
             Inr [0x79, LF] \<and>
           write_fault (w_fs (world example_state)) (path_str (path_div (Path ''./src'') ''n.py'')) =
             None"
    by (simp add: ex_path_n path_str_def example_state_def example_fs_def read_file_def)
  have v: "dry_loop [0x79, LF] = Some [0x79]"
    "trim_loop [0x79, LF] = Some [0x79]"
    "dry_bytes_would_remove [0x79, LF] = Some 1"
    "map_option snd (trim [0x79, LF]) = Some 1"
    by (simp_all add: dry_loop_closed trim_loop_closed dry_bytes_closed trim_closed)
  from dry_run_computes_same_bytes_removed[of "[0x79, LF]" example_state
      "path_div (Path ''./src'') ''n.py''"] h v
  show ?thesis by blast
qed


subsection \<open>Hidden directories\<close>

lemma in_set_option_case:
  "x \<in> set (case m of None \<Rightarrow> [] | Some t \<Rightarrow> f t) \<longleftrightarrow> (\<exists>t. m = Some t \<and> x \<in> set (f t))"
  by (cases m) auto

lemma walk_chains_unpruned:
  "map snd (walk_chains chain walk_top t) = os_walk (\<lambda>dirs. dirs) walk_top t"
proof (induction chain walk_top t rule: walk_chains.induct)
  case (1 chain walk_top subs files)
  define names where "names = map fst subs"
  have "map snd (case map_of subs d of None \<Rightarrow> []
              | Some t \<Rightarrow> walk_chains (chain @ [d]) (os_path_join walk_top d) t) =
        (case map_of subs d of None \<Rightarrow> []
              | Some t \<Rightarrow> os_walk (\<lambda>dirs. dirs) (os_path_join walk_top d) t)"
    if "d \<in> set names" for d
    using that "1.IH"[of d] by (cases "map_of subs d") (simp_all add: names_def)
  then have "concat (map (\<lambda>d. map snd (case map_of subs d of None \<Rightarrow> []
              | Some t \<Rightarrow> walk_chains (chain @ [d]) (os_path_join walk_top d) t)) names) =
        concat (map (\<lambda>d. case map_of subs d of None \<Rightarrow> []
              | Some t \<Rightarrow> os_walk (\<lambda>dirs. dirs) (os_path_join walk_top d) t) names)"
    by (intro arg_cong[where f = concat] map_cong refl)
  then show ?case
    unfolding walk_chains.simps os_walk.simps names_def[symmetric]
    by (simp add: map_concat comp_def)
qed

lemma walk_chains_extend:
  "(ch, triple) \<in> set (walk_chains chain walk_top t) \<Longrightarrow> set chain \<subseteq> set ch"
proof (induction chain walk_top t rule: walk_chains.induct)
  case (1 chain walk_top subs files)
  define names where "names = map fst subs"
  from "1.prems" have "ch = chain \<or>
      (\<exists>d\<in>set names. (ch, triple) \<in> set (case map_of subs d of None \<Rightarrow> []
              | Some t \<Rightarrow> walk_chains (chain @ [d]) (os_path_join walk_top d) t))"
    unfolding walk_chains.simps names_def[symmetric] by auto
  then consider (head) "ch = chain"
    | (sub) d t' where "d \<in> set (map fst subs)" "map_of subs d = Some t'"
        "(ch, triple) \<in> set (walk_chains (chain @ [d]) (os_path_join walk_top d) t')"
    unfolding in_set_option_case names_def by blast
  then show ?case
  proof cases
    case head
    then show ?thesis by simp
  next
    case sub
    from "1.IH"[OF sub] show ?thesis by simp
  qed
qed

lemma concat_map_filter:
  assumes "\<And>x. x \<in> set xs \<Longrightarrow> \<not> Q x \<Longrightarrow> f x = []"
  shows "concat (map f xs) = concat (map f (filter Q xs))"
  using assms by (induction xs) auto

lemma pruned_walk_is_filtered_walk:
  assumes "no_hidden chain"
  shows "os_walk skip_hidden walk_top t =
           map snd (filter (\<lambda>(ch, triple). no_hidden ch) (walk_chains chain walk_top t))"
  using assms
proof (induction chain walk_top t rule: walk_chains.induct)
  case (1 chain walk_top subs files)
  define names where "names = map fst subs"
  let ?sub = "\<lambda>d. case map_of subs d of None \<Rightarrow> []
              | Some t \<Rightarrow> walk_chains (chain @ [d]) (os_path_join walk_top d) t"
  let ?keep = "\<lambda>d. map snd (filter (\<lambda>(ch, triple). no_hidden ch) (?sub d))"
  let ?pruned = "\<lambda>d. case map_of subs d of None \<Rightarrow> []
              | Some t \<Rightarrow> os_walk skip_hidden (os_path_join walk_top d) t"
  have hidden: "?keep d = []" if "startswith d ''.''" for d
  proof -
    have "\<not> no_hidden ch" if "(ch, triple) \<in> set (?sub d)" for ch triple
    proof -
      from that obtain t' where "(ch, triple) \<in> set (walk_chains (chain @ [d]) (os_path_join walk_top d) t')"
        unfolding in_set_option_case by blast
      then have "set (chain @ [d]) \<subseteq> set ch"
        by (rule walk_chains_extend)
      with \<open>startswith d ''.''\<close> show ?thesis
        by (auto simp: no_hidden_def list_all_iff)
    qed
    then have "filter (\<lambda>(ch, triple). no_hidden ch) (?sub d) = []"
      unfolding filter_empty_conv by blast
    then show ?thesis by simp
  qed
  have visible: "?keep d = ?pruned d" if "d \<in> set names" "\<not> startswith d ''.''" for d
  proof (cases "map_of subs d")
    case None
    then show ?thesis by simp
  next
    case (Some t')
    from that(2) "1.prems" have nh: "no_hidden (chain @ [d])"
      by (simp add: no_hidden_def)
    from that(1) have "d \<in> set (map fst subs)" by (simp add: names_def)
    from "1.IH"[OF this Some nh] Some show ?thesis by simp
  qed
  have "concat (map ?keep names) =
        concat (map ?keep (filter (\<lambda>d. \<not> startswith d ''.'') names))"
    by (rule concat_map_filter) (use hidden in blast)
  also have "\<dots> = concat (map ?pruned (filter (\<lambda>d. \<not> startswith d ''.'') names))"
    by (intro arg_cong[where f = concat] map_cong refl) (use visible in auto)
  finally have eq: "concat (map ?keep names) = concat (map ?pruned (skip_hidden names))"
    by (simp add: skip_hidden_def)
  have "map snd (filter (\<lambda>(ch, triple). no_hidden ch) (concat (map ?sub names))) =
        concat (map ?keep names)"
    by (simp add: map_concat filter_concat comp_def)
  with eq "1.prems" show ?case
    unfolding walk_chains.simps os_walk.simps names_def[symmetric] by simp
qed


lemma map_fst_pruned:
  "map fst (map (\<lambda>(d, t). (d, g t)) (filter (\<lambda>(d, t). \<not> startswith d ''.'') subs)) =
     skip_hidden (map fst subs)"
  by (induction subs) (auto simp: skip_hidden_def)

lemma map_of_pruned:
  "\<not> startswith d ''.'' \<Longrightarrow>
   map_of (map (\<lambda>(d, t). (d, g t)) (filter (\<lambda>(d, t). \<not> startswith d ''.'') subs)) d =
     map_option g (map_of subs d)"
  by (induction subs) auto

lemma skip_hidden_idem: "skip_hidden (skip_hidden dirs) = skip_hidden dirs"
  by (simp add: skip_hidden_def)

lemma skip_hidden_visible: "d \<in> set (skip_hidden dirs) \<Longrightarrow> \<not> startswith d ''.''"
  by (simp add: skip_hidden_def)

lemma os_walk_prune_hidden:
  "map (\<lambda>(root, dirs, files). (root, files)) (os_walk edit walk_top (prune_hidden t)) =
   map (\<lambda>(root, dirs, files). (root, files)) (os_walk edit walk_top t)"
  if "edit = skip_hidden"
  using that
proof (induction edit walk_top t rule: os_walk.induct)
  case (1 edit walk_top subs files)
  define names where "names = skip_hidden (map fst subs)"
  define subs' where
    "subs' = map (\<lambda>(d, t). (d, prune_hidden t)) (filter (\<lambda>(d, t). \<not> startswith d ''.'') subs)"
  let ?rf = "\<lambda>(root, dirs, files). (root, files)"
  have names': "skip_hidden (map fst subs') = names"
    unfolding subs'_def map_fst_pruned skip_hidden_idem names_def ..
  have "map ?rf (case map_of subs' d of None \<Rightarrow> []
          | Some t \<Rightarrow> os_walk edit (os_path_join walk_top d) t) =
        map ?rf (case map_of subs d of None \<Rightarrow> []
          | Some t \<Rightarrow> os_walk edit (os_path_join walk_top d) t)"
    if d: "d \<in> set names" for d
  proof -
    from d have "\<not> startswith d ''.''"
      unfolding names_def by (rule skip_hidden_visible)
    then have m: "map_of subs' d = map_option prune_hidden (map_of subs d)"
      unfolding subs'_def by (rule map_of_pruned)
    show ?thesis
    proof (cases "map_of subs d")
      case None
      with m show ?thesis by simp
    next
      case (Some t')
      from d have "d \<in> set (edit (map fst subs))"
        by (simp add: names_def "1.prems")
      from "1.IH"[OF this Some "1.prems"] m Some show ?thesis by simp
    qed
  qed
  then have "concat (map (\<lambda>d. map ?rf (case map_of subs' d of None \<Rightarrow> []
          | Some t \<Rightarrow> os_walk edit (os_path_join walk_top d) t)) names) =
        concat (map (\<lambda>d. map ?rf (case map_of subs d of None \<Rightarrow> []
          | Some t \<Rightarrow> os_walk edit (os_path_join walk_top d) t)) names)"
    by (intro arg_cong[where f = concat] map_cong[OF refl])
  then show ?case
    unfolding prune_hidden.simps subs'_def[symmetric] os_walk.simps "1.prems" names'
      names_def[symmetric]
    by (simp add: map_concat comp_def "1.prems")
qed

lemma process_walk_cong:
  assumes "map (\<lambda>(root, dirs, files). (root, files)) xs =
           map (\<lambda>(root, dirs, files). (root, files)) ys"
  shows "process_walk extensions exclude_patterns dry_run xs st =
         process_walk extensions exclude_patterns dry_run ys st"
  using assms
proof (induction xs arbitrary: ys st)
  case Nil
  then show ?case by simp
next
  case (Cons x xs)
  then obtain y ys' where ys: "ys = y # ys'"
    by (cases ys) auto
  obtain root dirs files where x: "x = (root, dirs, files)"
    by (cases x) auto
  obtain root' dirs' files' where y: "y = (root', dirs', files')"
    by (cases y) auto
  from Cons.prems ys x y have eq: "root' = root" "files' = files"
    and rest: "map (\<lambda>(root, dirs, files). (root, files)) xs =
           map (\<lambda>(root, dirs, files). (root, files)) ys'"
    by simp_all
  show ?case
    unfolding ys x y eq process_walk.simps
    by (cases "process_files extensions exclude_patterns dry_run root files st")
       (simp_all add: Cons.IH[OF rest])
qed

text \<open>
  Claim C6, amended.  Below the start directory, in every configuration, the directories
  that the traversal visits are those of the full walk whose chain of names from the
  start directory has no name starting with a dot: nothing under a hidden directory
  that lies below the start directory is yielded, so none of its files is reached.  The
  whole run is the run on the structure from which the hidden directories have been
  removed at every depth.  The name of the start directory itself, and the names of the
  directories above it, are not tested.
\<close>

theorem hidden_directories_never_visited:
  "os_walk skip_hidden walk_top t =
     map snd (filter (\<lambda>(chain, triple). no_hidden chain) (walk_chains [] walk_top t)) \<and>
   process_directory directory t extensions exclude_patterns dry_run w =
     process_directory directory (prune_hidden t) extensions exclude_patterns dry_run w"
proof
  show "os_walk skip_hidden walk_top t =
     map snd (filter (\<lambda>(chain, triple). no_hidden chain) (walk_chains [] walk_top t))"
    by (rule pruned_walk_is_filtered_walk) (simp add: no_hidden_def)
  have "process_walk extensions exclude_patterns dry_run
          (os_walk skip_hidden (path_str directory) t) st =
        process_walk extensions exclude_patterns dry_run
          (os_walk skip_hidden (path_str directory) (prune_hidden t)) st" for st
    by (rule process_walk_cong) (simp add: os_walk_prune_hidden)
  then show "process_directory directory t extensions exclude_patterns dry_run w =
     process_directory directory (prune_hidden t) extensions exclude_patterns dry_run w"
    by (simp add: process_directory_def walk_directory_def)
qed


text \<open>The statement at a concrete input.\<close>

theorem hidden_directories_never_visited_witness:
  "walk_chains [] ''.'' example_tree =
     [([], ''.'', [''.git'', ''src''], [''README'', ''logo.PNG'']),
      ([''.git''], ''./.git'', [''hooks''], [''config'']),
      ([''.git'', ''hooks''], ''./.git/hooks'', [], [''pre-commit'']),
      ([''src''], ''./src'', [], [''m.py'', ''n.py''])] \<and>
   os_walk skip_hidden ''.'' example_tree =
     [(''.'', [''.git'', ''src''], [''README'', ''logo.PNG'']),
      (''./src'', [], [''m.py'', ''n.py''])] \<and>
   prune_hidden example_tree = Dir [(''src'', Dir [] [''m.py'', ''n.py''])] [''README'', ''logo.PNG'']"
proof -
  have chains: "walk_chains [] ''.'' example_tree =
     [([], ''.'', [''.git'', ''src''], [''README'', ''logo.PNG'']),
      ([''.git''], ''./.git'', [''hooks''], [''config'']),
      ([''.git'', ''hooks''], ''./.git/hooks'', [], [''pre-commit'']),
      ([''src''], ''./src'', [], [''m.py'', ''n.py''])]"
    by (simp add: example_tree_def os_path_join_def startswith_def endswith_def)
  have pruned: "prune_hidden example_tree =
      Dir [(''src'', Dir [] [''m.py'', ''n.py''])] [''README'', ''logo.PNG'']"
    by (simp add: example_tree_def startswith_def)
  from hidden_directories_never_visited[of "''.''" example_tree]
  have "os_walk skip_hidden ''.'' example_tree =
     map snd (filter (\<lambda>(chain, triple). no_hidden chain) (walk_chains [] ''.'' example_tree))"
    by blast
  then have "os_walk skip_hidden ''.'' example_tree =
     [(''.'', [''.git'', ''src''], [''README'', ''logo.PNG'']),
      (''./src'', [], [''m.py'', ''n.py''])]"
    unfolding chains by (simp add: no_hidden_def startswith_def)
  with chains pruned show ?thesis by blast
qed

text \<open>
  Claim C6 as it was stated fails when the start directory is itself hidden: line 116
  tests the names in \<open>dirs\<close> only, so the run on \<open>''.hid''\<close> visits the file a.txt under
  it and rewrites it.
\<close>

theorem hidden_start_directory_counterexample:
  "startswith ''.hid'' ''.'' \<and>
   os_walk skip_hidden (path_str (Path ''.hid'')) (Dir [] [''a.txt'']) =
     [(''.hid'', [], [''a.txt''])] \<and>
   path_str (path_div (Path ''.hid'') ''a.txt'') = ''.hid/a.txt'' \<and>
   process_directory (Path ''.hid'') (Dir [] [''a.txt'']) None (Some default_exclude) False
       \<lparr>w_fs = \<lparr>contents = [''.hid/a.txt'' \<mapsto> [0x78, LF]], read_fault = Map.empty,
                 write_fault = Map.empty\<rparr>,
        w_stdout = [], w_stderr = []\<rparr> =
     Some \<lparr>w_fs = \<lparr>contents = [''.hid/a.txt'' \<mapsto> [0x78]], read_fault = Map.empty,
                     write_fault = Map.empty\<rparr>,
           w_stdout = [''Processing directory: .hid'', [],
                       ''Modified: .hid/a.txt (1 bytes removed)'',
                       CHR 0x0A # ''Summary:'', ''Files processed: 1'', ''Files modified: 1'',
                       ''Total bytes removed: 1''],
           w_stderr = []\<rparr>"
proof -
  have str: "path_str (Path ''.hid'') = ''.hid''"
    by (simp add: path_eval)
  have p: "path_div (Path ''.hid'') ''a.txt'' = PurePath [] [''.hid'', ''a.txt'']"
    by (simp add: path_eval)
  have q: "should_process_file (PurePath [] [''.hid'', ''a.txt'']) None (Some default_exclude)"
    by (simp add: should_process_file_def binary_extensions_def default_exclude_def path_eval)
  have walk: "os_walk skip_hidden ''.hid'' (Dir [] [''a.txt'']) = [(''.hid'', [], [''a.txt''])]"
    by (simp add: skip_hidden_def)
  have run: "process_directory (Path ''.hid'') (Dir [] [''a.txt'']) None (Some default_exclude) False
       \<lparr>w_fs = \<lparr>contents = [''.hid/a.txt'' \<mapsto> [0x78, LF]], read_fault = Map.empty,
                 write_fault = Map.empty\<rparr>,
        w_stdout = [], w_stderr = []\<rparr> =
     Some \<lparr>w_fs = \<lparr>contents = [''.hid/a.txt'' \<mapsto> [0x78]], read_fault = Map.empty,
                     write_fault = Map.empty\<rparr>,
           w_stdout = [''Processing directory: .hid'', [],
                       ''Modified: .hid/a.txt (1 bytes removed)'',
                       CHR 0x0A # ''Summary:'', ''Files processed: 1'', ''Files modified: 1'',
                       ''Total bytes removed: 1''],
           w_stderr = []\<rparr>"
    unfolding process_directory_def walk_directory_def str walk
    by (simp add: Let_def p q process_file_def startswith_def remove_trailing_newlines_def
        remove_trailing_newlines_try_def read_file_def write_file_def print_out_def path_str_def
        trim_closed str_int_def str_nat.simps)
  have "startswith ''.hid'' ''.''"
    by (simp add: startswith_def)
  moreover have "path_str (path_div (Path ''.hid'') ''a.txt'') = ''.hid/a.txt''"
    by (simp add: p path_str_def)
  ultimately show ?thesis
    using walk run unfolding str by (intro conjI)
qed



section \<open>Exclude patterns and the start directory\<close>

subsection \<open>Splitting and joining\<close>

lemma py_split_nonempty: "py_split c s \<noteq> []"
  by (induction s) (auto split: list.splits)

lemma py_split_append:
  "py_split c (xs @ c # ys) = py_split c xs @ py_split c ys"
proof (induction xs)
  case Nil
  show ?case by simp
next
  case (Cons x xs)
  then show ?case
    using py_split_nonempty[of c xs] by (auto split: list.splits)
qed

lemma py_split_no_sep: "c \<notin> set s \<Longrightarrow> py_split c s = [s]"
  by (induction s) auto

lemma py_split_parts: "p \<in> set (py_split c s) \<Longrightarrow> c \<notin> set p"
proof (induction s arbitrary: p)
  case Nil
  then show ?case by simp
next
  case (Cons x xs)
  then show ?case
    by (auto split: if_splits list.splits)
qed

lemma py_split_join:
  assumes "\<forall>p \<in> set ps. CHR ''/'' \<notin> set p" and "ps \<noteq> []"
  shows "py_split CHR ''/'' (py_join ''/'' ps) = ps"
  using assms
proof (induction ps)
  case Nil
  then show ?case by simp
next
  case (Cons x ps)
  show ?case
  proof (cases ps)
    case Nil
    with Cons.prems show ?thesis by (simp add: py_split_no_sep)
  next
    case (Cons y ys)
    with Cons.IH Cons.prems have "py_split CHR ''/'' (py_join ''/'' (y # ys)) = y # ys"
      by simp
    with Cons Cons.prems show ?thesis
      using py_split_append[of "CHR ''/''" x "py_join ''/'' (y # ys)"]
      by (simp add: py_split_no_sep)
  qed
qed

subsection \<open>Parsing a path, printing it, parsing again\<close>

lemma Path_parts_ok: "parts_ok (path_tail (Path s))"
  by (auto simp: parts_ok_def valid_name_def Path_def dest: py_split_parts)

lemma Path_root_cases: "path_root (Path s) = [] \<or> path_root (Path s) = ''/'' \<or> path_root (Path s) = ''//''"
  by (simp add: Path_def posix_root_def)

lemma py_join_head:
  assumes "parts_ok ps"
  shows "py_join ''/'' ps = [] \<or> hd (py_join ''/'' ps) \<noteq> CHR ''/''"
proof (cases ps)
  case Nil
  then show ?thesis by simp
next
  case (Cons x xs)
  with assms obtain c cs where "x = c # cs" "c \<noteq> CHR ''/''"
    by (cases x) (auto simp: parts_ok_def valid_name_def)
  with Cons show ?thesis by (cases xs) auto
qed

lemma posix_root_print:
  assumes "a = [] \<or> a = ''/'' \<or> a = ''//''" and "j = [] \<or> hd j \<noteq> CHR ''/''"
  shows "posix_root (a @ j) = a"
  using assms by (cases j) (auto simp: posix_root_def startswith_def)

lemma tail_print:
  assumes "a = [] \<or> a = ''/'' \<or> a = ''//''" and "parts_ok ps"
  shows "filter (\<lambda>x. x \<noteq> [] \<and> x \<noteq> ''.'') (py_split CHR ''/'' (a @ py_join ''/'' ps)) = ps"
proof -
  have ok: "filter (\<lambda>x. x \<noteq> [] \<and> x \<noteq> ''.'') ps = ps"
    using assms(2) by (auto simp: parts_ok_def valid_name_def filter_id_conv)
  have split: "filter (\<lambda>x. x \<noteq> [] \<and> x \<noteq> ''.'') (py_split CHR ''/'' (py_join ''/'' ps)) = ps"
  proof (cases "ps = []")
    case True
    then show ?thesis by simp
  next
    case False
    with assms(2) have "py_split CHR ''/'' (py_join ''/'' ps) = ps"
      by (intro py_split_join) (auto simp: parts_ok_def valid_name_def)
    with ok show ?thesis by simp
  qed
  from assms(1) split show ?thesis by auto
qed

lemma Path_print_parsed:
  assumes "path_root p = [] \<or> path_root p = ''/'' \<or> path_root p = ''//''"
    and "parts_ok (path_tail p)"
  shows "Path (path_str p) = p"
proof (cases "path_root p = [] \<and> path_tail p = []")
  case True
  then have "Path (path_str p) = PurePath [] []"
    by (simp add: path_str_def Path_def posix_root_def startswith_def)
  with True show ?thesis by (cases p) simp
next
  case False
  then have "path_str p = path_root p @ py_join ''/'' (path_tail p)"
    by (simp add: path_str_def)
  then show ?thesis
    using posix_root_print[OF assms(1) py_join_head[OF assms(2)]] tail_print[OF assms]
    by (cases p) (simp add: Path_def)
qed

lemma Path_roundtrip: "Path (path_str (Path s)) = Path s"
  by (rule Path_print_parsed[OF Path_root_cases Path_parts_ok])

subsection \<open>Joining a valid name to a directory\<close>

lemma posix_root_join:
  assumes "valid_name d"
  shows "posix_root (os_path_join r d) = posix_root r"
proof -
  from assms obtain c cs where d: "d = c # cs" and c: "c \<noteq> CHR ''/''"
    by (cases d) (auto simp: valid_name_def)
  show ?thesis
  proof (cases r)
    case Nil
    with d c show ?thesis
      by (simp add: os_path_join_def posix_root_def startswith_def)
  next
    case r1: (Cons x1 ra)
    show ?thesis
    proof (cases ra)
      case Nil
      with r1 d c show ?thesis
        by (auto simp: os_path_join_def posix_root_def startswith_def endswith_def)
    next
      case r2: (Cons x2 rb)
      show ?thesis
      proof (cases rb)
        case Nil
        with r1 r2 d c show ?thesis
          by (auto simp: os_path_join_def posix_root_def startswith_def endswith_def)
      next
        case (Cons x3 rc)
        with r1 r2 d c show ?thesis
          by (auto simp: os_path_join_def posix_root_def startswith_def)
      qed
    qed
  qed
qed

lemma tail_join:
  assumes "valid_name d"
  shows "filter (\<lambda>x. x \<noteq> [] \<and> x \<noteq> ''.'') (py_split CHR ''/'' (os_path_join r d)) =
         filter (\<lambda>x. x \<noteq> [] \<and> x \<noteq> ''.'') (py_split CHR ''/'' r) @ [d]"
proof -
  from assms have d: "py_split CHR ''/'' d = [d]" "d \<noteq> []" "d \<noteq> ''.''" "\<not> startswith d ''/''"
    by (auto simp: valid_name_def py_split_no_sep startswith_def intro: list.exhaust[of d])
  show ?thesis
  proof (cases "r = [] \<or> endswith r ''/''")
    case False
    then have "os_path_join r d = r @ CHR ''/'' # d"
      using d by (simp add: os_path_join_def)
    then show ?thesis
      using d by (simp add: py_split_append)
  next
    case True
    then show ?thesis
    proof
      assume "r = []"
      then show ?thesis using d by (simp add: os_path_join_def)
    next
      assume "endswith r ''/''"
      then obtain ra where r: "r = ra @ ''/''"
        by (cases r rule: rev_cases) (auto simp: endswith_def)
      then have "os_path_join r d = ra @ CHR ''/'' # d"
        using d by (simp add: os_path_join_def endswith_def)
      moreover have "py_split CHR ''/'' r = py_split CHR ''/'' ra @ [[]]"
        unfolding r using py_split_append[of "CHR ''/''" ra "[]"] by simp
      ultimately show ?thesis
        using d by (simp add: py_split_append)
    qed
  qed
qed

lemma Path_join:
  assumes "valid_name d"
  shows "Path (os_path_join r d) = PurePath (path_root (Path r)) (path_tail (Path r) @ [d])"
  using posix_root_join[OF assms] tail_join[OF assms] by (simp add: Path_def)

lemma Path_join_chain:
  assumes "\<forall>d \<in> set ds. valid_name d"
  shows "Path (foldl os_path_join r ds) = PurePath (path_root (Path r)) (path_tail (Path r) @ ds)"
  using assms
proof (induction ds arbitrary: r)
  case Nil
  show ?case by simp
next
  case (Cons d ds)
  then show ?case by (simp add: Path_join)
qed

lemma path_div_valid:
  assumes "valid_name f"
  shows "path_div p f = PurePath (path_root p) (path_tail p @ [f])"
proof -
  from assms have "Path f = PurePath [] [f]"
    by (auto simp: Path_def posix_root_def startswith_def valid_name_def py_split_no_sep
        intro: list.exhaust[of f])
  then show ?thesis by (simp add: path_div_def)
qed

subsection \<open>The text of a path starts with the text of the path it extends\<close>

lemma py_join_append:
  "ps \<noteq> [] \<Longrightarrow> qs \<noteq> [] \<Longrightarrow> py_join sep (ps @ qs) = py_join sep ps @ sep @ py_join sep qs"
proof (induction ps)
  case Nil
  then show ?case by simp
next
  case (Cons p ps)
  then show ?case
    by (cases ps; cases qs) auto
qed

lemma path_str_extends:
  assumes "path_str (PurePath a ps) \<noteq> ''.''"
  shows "\<exists>ext. path_str (PurePath a (ps @ qs)) = path_str (PurePath a ps) @ ext"
proof (cases "qs = []")
  case True
  then show ?thesis by simp
next
  case qs: False
  show ?thesis
  proof (cases "ps = []")
    case True
    with assms have "a \<noteq> []" by (auto simp: path_str_def)
    with True qs show ?thesis by (simp add: path_str_def)
  next
    case False
    with qs show ?thesis by (simp add: path_str_def py_join_append)
  qed
qed

subsection \<open>The substring test\<close>

lemma py_in_iff: "py_in pat s \<longleftrightarrow> (\<exists>u v. s = u @ pat @ v)"
proof (induction s)
  case Nil
  show ?case by auto
next
  case (Cons c cs)
  have "startswith (c # cs) pat \<longleftrightarrow> (\<exists>v. c # cs = pat @ v)"
    unfolding startswith_def
    by (metis append_eq_conv_conj append_take_drop_id)
  moreover have "(\<exists>u v. c # cs = u @ pat @ v) \<longleftrightarrow>
                 (\<exists>v. c # cs = pat @ v) \<or> (\<exists>u v. cs = u @ pat @ v)"
  proof
    assume "\<exists>u v. c # cs = u @ pat @ v"
    then obtain u v where uv: "c # cs = u @ pat @ v" by blast
    show "(\<exists>v. c # cs = pat @ v) \<or> (\<exists>u v. cs = u @ pat @ v)"
    proof (cases u)
      case Nil
      with uv show ?thesis by auto
    next
      case (Cons x ua)
      with uv have "cs = ua @ pat @ v" by simp
      then show ?thesis by blast
    qed
  next
    assume "(\<exists>v. c # cs = pat @ v) \<or> (\<exists>u v. cs = u @ pat @ v)"
    then show "\<exists>u v. c # cs = u @ pat @ v"
    proof
      assume "\<exists>v. c # cs = pat @ v"
      then obtain v where "c # cs = [] @ pat @ v" by auto
      then show ?thesis by blast
    next
      assume "\<exists>u v. cs = u @ pat @ v"
      then obtain u v where "c # cs = (c # u) @ pat @ v" by auto
      then show ?thesis by blast
    qed
  qed
  ultimately show ?case using Cons by simp
qed

lemma py_in_extend: "py_in pat s \<Longrightarrow> py_in pat (s @ ext)"
  unfolding py_in_iff by (metis append.assoc)

lemma exclude_hit_iff: "exclude_hit pats s \<longleftrightarrow> (\<exists>pattern \<in> set pats. py_in pattern s)"
  by (induction pats) auto

subsection \<open>An exclude pattern found in the start directory\<close>

lemma walk_chains_roots:
  assumes "wf_tree t" and "(ch, root, dirs, files) \<in> set (walk_chains chain walk_top t)"
  shows "\<exists>ds. (\<forall>d \<in> set ds. valid_name d) \<and> root = foldl os_path_join walk_top ds \<and>
              (\<forall>f \<in> set files. valid_name f)"
  using assms
proof (induction chain walk_top t rule: walk_chains.induct)
  case (1 chain walk_top subs fs)
  define names where "names = map fst subs"
  from "1.prems"(2) have "(root = walk_top \<and> files = fs) \<or>
      (\<exists>d\<in>set names. (ch, root, dirs, files) \<in> set (case map_of subs d of None \<Rightarrow> []
              | Some t \<Rightarrow> walk_chains (chain @ [d]) (os_path_join walk_top d) t))"
    unfolding walk_chains.simps names_def[symmetric] by auto
  then consider (head) "root = walk_top" "files = fs"
    | (sub) d t' where "d \<in> set (map fst subs)" "map_of subs d = Some t'"
        "(ch, root, dirs, files) \<in> set (walk_chains (chain @ [d]) (os_path_join walk_top d) t')"
    unfolding in_set_option_case names_def by blast
  then show ?case
  proof cases
    case head
    with "1.prems"(1) have "(\<forall>d \<in> set []. valid_name d) \<and> root = foldl os_path_join walk_top [] \<and>
              (\<forall>f \<in> set files. valid_name f)"
      by simp
    then show ?thesis by blast
  next
    case sub
    from sub(2) have "(d, t') \<in> set subs" by (rule map_of_SomeD)
    with "1.prems"(1) have d: "valid_name d" and t': "wf_tree t'"
      by auto
    from "1.IH"[OF sub(1,2) t' sub(3)] obtain ds where
      ds: "\<forall>d \<in> set ds. valid_name d" "root = foldl os_path_join (os_path_join walk_top d) ds"
        "\<forall>f \<in> set files. valid_name f"
      by blast
    with d have "(\<forall>x \<in> set (d # ds). valid_name x) \<and> root = foldl os_path_join walk_top (d # ds) \<and>
              (\<forall>f \<in> set files. valid_name f)"
      by simp
    then show ?thesis by blast
  qed
qed

lemma pruned_walk_roots:
  assumes "wf_tree t" and "(root, dirs, files) \<in> set (os_walk skip_hidden walk_top t)"
  shows "\<exists>ds. (\<forall>d \<in> set ds. valid_name d) \<and> root = foldl os_path_join walk_top ds \<and>
              (\<forall>f \<in> set files. valid_name f)"
proof -
  have "os_walk skip_hidden walk_top t =
          map snd (filter (\<lambda>(ch, triple). no_hidden ch) (walk_chains [] walk_top t))"
    by (rule pruned_walk_is_filtered_walk) (simp add: no_hidden_def)
  with assms(2) obtain ch where "(ch, root, dirs, files) \<in> set (walk_chains [] walk_top t)"
    by auto
  with assms(1) show ?thesis by (rule walk_chains_roots)
qed

lemma file_path_extends_start:
  assumes "path_str (Path arg) \<noteq> ''.''" and "\<forall>d \<in> set ds. valid_name d" and "valid_name f"
  shows "\<exists>ext. path_str (path_div (Path (foldl os_path_join (path_str (Path arg)) ds)) f) =
               path_str (Path arg) @ ext"
proof -
  obtain a ps where p: "Path arg = PurePath a ps"
    by (cases "Path arg") auto
  have again: "Path (path_str (Path arg)) = PurePath a ps"
    using Path_roundtrip[of arg] by (simp only: p)
  have "Path (foldl os_path_join (path_str (Path arg)) ds) = PurePath a (ps @ ds)"
    using Path_join_chain[OF assms(2), of "path_str (Path arg)"]
    by (simp only: again pure_path.sel)
  then have "path_div (Path (foldl os_path_join (path_str (Path arg)) ds)) f =
             PurePath a (ps @ (ds @ [f]))"
    by (simp add: path_div_valid[OF assms(3)])
  with path_str_extends[of a ps "ds @ [f]"] assms(1) show ?thesis
    by (simp add: p)
qed

lemma excluded_is_rejected:
  assumes "pattern \<in> set exclude_patterns" and "py_in pattern (path_str file_path)"
  shows "\<not> should_process_file file_path extensions (Some exclude_patterns)"
proof -
  from assms have "exclude_patterns \<noteq> []" "exclude_hit exclude_patterns (path_str file_path)"
    by (auto simp: exclude_hit_iff)
  then show ?thesis by (simp add: should_process_file_def)
qed

lemma process_files_all_rejected:
  assumes "\<forall>f \<in> set files. \<not> should_process_file (path_div (Path root) f) extensions exclude_patterns"
  shows "process_files extensions exclude_patterns dry_run root files st = Some st"
  using assms by (induction files) (simp_all add: process_file_def Let_def)

lemma process_walk_all_rejected:
  assumes "\<forall>(root, dirs, files) \<in> set triples. \<forall>f \<in> set files.
             \<not> should_process_file (path_div (Path root) f) extensions exclude_patterns"
  shows "process_walk extensions exclude_patterns dry_run triples st = Some st"
  using assms
proof (induction triples)
  case Nil
  show ?case by simp
next
  case (Cons triple triples)
  obtain root dirs files where triple: "triple = (root, dirs, files)"
    by (cases triple) auto
  with Cons.prems have "process_files extensions exclude_patterns dry_run root files st = Some st"
    by (intro process_files_all_rejected) simp
  with Cons triple show ?case by simp
qed

text \<open>
  Claim C10, amended.  Exclude patterns are matched against the whole text of the file
  path, which begins with the text of the start directory unless that text is a single
  dot.  So for a start directory whose text is not a single dot, and entries with the
  names a listing can hold: if some exclude pattern is a substring of the text of the
  start directory, should_process_file rejects every file of the walk, no file is
  counted as processed and no file is changed.
\<close>

theorem exclude_pattern_in_start_directory:
  assumes not_dot: "path_str (Path arg) \<noteq> ''.''"
    and pattern: "pattern \<in> set exclude_patterns" "py_in pattern (path_str (Path arg))"
    and names: "wf_tree t"
  shows "(\<forall>(root, dirs, files) \<in> set (os_walk skip_hidden (path_str (Path arg)) t).
            \<forall>f \<in> set files.
              \<not> should_process_file (path_div (Path root) f) extensions (Some exclude_patterns)) \<and>
         (\<exists>st. walk_directory (Path arg) t extensions (Some exclude_patterns) dry_run w = Some st \<and>
               total_files st = 0 \<and> w_fs (world st) = w_fs w)"
proof -
  have rejected: "\<not> should_process_file (path_div (Path root) f) extensions (Some exclude_patterns)"
    if "(root, dirs, files) \<in> set (os_walk skip_hidden (path_str (Path arg)) t)" "f \<in> set files"
    for root dirs files f
  proof -
    from pruned_walk_roots[OF names that(1)] that(2) obtain ds where
      "\<forall>d \<in> set ds. valid_name d" "root = foldl os_path_join (path_str (Path arg)) ds" "valid_name f"
      by blast
    with file_path_extends_start[OF not_dot, of ds f] obtain ext where
      "path_str (path_div (Path root) f) = path_str (Path arg) @ ext"
      by blast
    with pattern(2) have "py_in pattern (path_str (path_div (Path root) f))"
      by (simp add: py_in_extend)
    with pattern(1) show ?thesis by (rule excluded_is_rejected)
  qed
  then have all: "\<forall>(root, dirs, files) \<in> set (os_walk skip_hidden (path_str (Path arg)) t).
            \<forall>f \<in> set files.
              \<not> should_process_file (path_div (Path root) f) extensions (Some exclude_patterns)"
    by blast
  from process_walk_all_rejected[OF all]
  have "\<exists>st. walk_directory (Path arg) t extensions (Some exclude_patterns) dry_run w = Some st \<and>
               total_files st = 0 \<and> w_fs (world st) = w_fs w"
    by (simp add: walk_directory_def print_out_def Let_def)
  with all show ?thesis by blast
qed

text \<open>The statement at a concrete input.\<close>

theorem exclude_pattern_in_start_directory_witness:
  "path_str (Path ''my_venv'') \<noteq> ''.'' \<and>
   ''venv'' \<in> set default_exclude \<and>
   py_in ''venv'' (path_str (Path ''my_venv'')) \<and>
   wf_tree example_tree \<and>
   os_walk skip_hidden (path_str (Path ''my_venv'')) example_tree =
     [(''my_venv'', [''.git'', ''src''], [''README'', ''logo.PNG'']),
      (''my_venv/src'', [], [''m.py'', ''n.py''])] \<and>
   \<not> should_process_file (path_div (Path ''my_venv/src'') ''m.py'') None (Some default_exclude) \<and>
   (\<exists>st. walk_directory (Path ''my_venv'') example_tree None (Some default_exclude) False
            (world example_state) = Some st \<and>
         total_files st = 0 \<and> w_fs (world st) = w_fs (world example_state))"
proof -
  have str: "path_str (Path ''my_venv'') = ''my_venv''"
    by (simp add: path_eval)
  have h1: "path_str (Path ''my_venv'') \<noteq> ''.''"
    unfolding str by simp
  have h2: "''venv'' \<in> set default_exclude"
    by (simp add: default_exclude_def)
  have h3: "py_in ''venv'' (path_str (Path ''my_venv''))"
    unfolding str by (simp add: startswith_def)
  have h4: "wf_tree example_tree"
    by (simp add: example_tree_def valid_name_def)
  have walk: "os_walk skip_hidden (path_str (Path ''my_venv'')) example_tree =
     [(''my_venv'', [''.git'', ''src''], [''README'', ''logo.PNG'']),
      (''my_venv/src'', [], [''m.py'', ''n.py''])]"
    unfolding str
    by (simp add: example_tree_def skip_hidden_def os_path_join_def startswith_def endswith_def)
  note inst = exclude_pattern_in_start_directory[OF h1 h2 h3 h4, of None False "world example_state"]
  from inst have "\<forall>(root, dirs, files) \<in> set (os_walk skip_hidden (path_str (Path ''my_venv'')) example_tree).
            \<forall>f \<in> set files.
              \<not> should_process_file (path_div (Path root) f) None (Some default_exclude)"
    by blast
  then have rej: "\<not> should_process_file (path_div (Path ''my_venv/src'') ''m.py'') None
                      (Some default_exclude)"
    unfolding walk by simp
  from inst have "\<exists>st. walk_directory (Path ''my_venv'') example_tree None (Some default_exclude) False
            (world example_state) = Some st \<and>
         total_files st = 0 \<and> w_fs (world st) = w_fs (world example_state)"
    by blast
  with h1 h2 h3 h4 walk rej show ?thesis by blast
qed

text \<open>
  Claim C10 as it was stated fails for the start directory \<open>''.''\<close>: the pattern \<open>''.''\<close> is a
  substring of its text, and yet the file README in it has the path text \<open>''README''\<close>,
  qualifies and is processed.
\<close>

theorem exclude_pattern_dot_counterexample:
  "py_in ''.'' (path_str (Path ''.'')) \<and>
   wf_tree (Dir [] [''README'']) \<and>
   os_walk skip_hidden (path_str (Path ''.'')) (Dir [] [''README'']) = [(''.'', [], [''README''])] \<and>
   path_str (path_div (Path ''.'') ''README'') = ''README'' \<and>
   should_process_file (path_div (Path ''.'') ''README'') None (Some [''.'']) \<and>
   map_option total_files
     (walk_directory (Path ''.'') (Dir [] [''README'']) None (Some [''.'']) False
        \<lparr>w_fs = \<lparr>contents = [''README'' \<mapsto> [0x68, 0x69, LF]], read_fault = Map.empty,
                  write_fault = Map.empty\<rparr>,
         w_stdout = [], w_stderr = []\<rparr>) = Some 1"
proof -
  have str: "path_str (Path ''.'') = ''.''"
    by (simp add: path_eval)
  have p: "path_div (Path ''.'') ''README'' = PurePath [] [''README'']"
    by (simp add: path_eval)
  have q: "should_process_file (PurePath [] [''README'']) None (Some [''.''])"
    by (simp add: should_process_file_def binary_extensions_def path_eval)
  have walk: "os_walk skip_hidden ''.'' (Dir [] [''README'']) = [(''.'', [], [''README''])]"
    by (simp add: skip_hidden_def)
  have "map_option total_files
     (walk_directory (Path ''.'') (Dir [] [''README'']) None (Some [''.'']) False
        \<lparr>w_fs = \<lparr>contents = [''README'' \<mapsto> [0x68, 0x69, LF]], read_fault = Map.empty,
                  write_fault = Map.empty\<rparr>,
         w_stdout = [], w_stderr = []\<rparr>) = Some 1"
    unfolding walk_directory_def str walk
    by (simp add: Let_def p q process_file_def startswith_def remove_trailing_newlines_def
        remove_trailing_newlines_try_def read_file_def write_file_def print_out_def path_str_def
        trim_closed)
  with str p q walk show ?thesis
    by (simp add: startswith_def valid_name_def path_str_def)
qed

end
